theory Spec2Isabelle
  imports Main
begin

section \<open>JavaScript values\<close>

text \<open>
  Values that cross the HTTP boundary are parsed JSON, plus \<open>undefined\<close> for a property
  that is not there. A string is a list of code units; the model covers the code units
  up to U+00FF. The association list of \<open>JObj\<close> holds the object's own properties in
  the order JavaScript enumerates them. Numbers are the integers (the counts the
  application shows).
\<close>

datatype json =
    JUndefined
  | JNull
  | JBool bool
  | JNum int
  | JStr string
  | JArr "json list"
  | JObj "(string \<times> json) list"

text \<open>Truthiness, as \<open>!x\<close>, \<open>x && y\<close> and \<open>x || y\<close> read it.\<close>

fun truthy :: "json \<Rightarrow> bool" where
  "truthy JUndefined = False"
| "truthy JNull = False"
| "truthy (JBool b) = b"
| "truthy (JNum n) = (n \<noteq> 0)"
| "truthy (JStr s) = (s \<noteq> [])"
| "truthy (JArr xs) = True"
| "truthy (JObj kvs) = True"

definition js_or :: "json \<Rightarrow> json \<Rightarrow> json" where
  "js_or a b = (if truthy a then a else b)"

datatype js_error = TypeError

text \<open>
  \<open>x.k\<close> for a property name \<open>k\<close> that no prototype defines (all the names this
  program reads: \<open>viz_data\<close>, \<open>response\<close>, \<open>error\<close>, \<open>summary\<close>, \<open>sources_breakdown\<close>,
  \<open>total_sources\<close>): a TypeError on \<open>null\<close> and \<open>undefined\<close>, the own property of an
  object, \<open>undefined\<close> everywhere else.
\<close>

fun get_prop :: "json \<Rightarrow> string \<Rightarrow> js_error + json" where
  "get_prop JUndefined k = Inl TypeError"
| "get_prop JNull k = Inl TypeError"
| "get_prop (JObj kvs) k = Inr (case map_of kvs k of None \<Rightarrow> JUndefined | Some v \<Rightarrow> v)"
| "get_prop x k = Inr JUndefined"

text \<open>Optional chaining \<open>x?.k\<close>: \<open>undefined\<close> where \<open>x.k\<close> would throw.\<close>

definition opt_chain :: "json \<Rightarrow> string \<Rightarrow> json" where
  "opt_chain x k = (case get_prop x k of Inl e \<Rightarrow> JUndefined | Inr v \<Rightarrow> v)"

text \<open>
  \<open>String.prototype.trim\<close> removes white space and line terminators from both ends.
  Up to U+00FF these are TAB, LF, VT, FF, CR, SPACE and NBSP.
\<close>

definition is_ws :: "char \<Rightarrow> bool" where
  "is_ws c = (c \<in> {CHR 0x09, CHR 0x0A, CHR 0x0B, CHR 0x0C, CHR 0x0D, CHR 0x20, CHR 0xA0})"

definition trim :: "string \<Rightarrow> string" where
  "trim s = rev (dropWhile is_ws (rev (dropWhile is_ws s)))"

text \<open>Decimal numerals, for the index keys of arrays and strings.\<close>

definition digit :: "nat \<Rightarrow> char" where
  "digit d = ''0123456789'' ! (d mod 10)"

fun show_nat :: "nat \<Rightarrow> string" where
  "show_nat n = (if n < 10 then [digit n] else show_nat (n div 10) @ [digit n])"

text \<open>
  \<open>Object.entries\<close>: the own enumerable string-keyed properties. A string and an array
  have their indices, a number and a boolean have none, \<open>null\<close> and \<open>undefined\<close> throw.
\<close>

fun Object_entries :: "json \<Rightarrow> js_error + (string \<times> json) list" where
  "Object_entries JUndefined = Inl TypeError"
| "Object_entries JNull = Inl TypeError"
| "Object_entries (JObj kvs) = Inr kvs"
| "Object_entries (JArr xs) = Inr (zip (map show_nat [0..<length xs]) xs)"
| "Object_entries (JStr s) = Inr (zip (map show_nat [0..<length s]) (map (\<lambda>c. JStr [c]) s))"
| "Object_entries x = Inr []"

section \<open>services/api.js\<close>

text \<open>
  A request as the functions of api.js hand it to the axios instance: the verb, the
  path (relative to the instance's \<open>baseURL\<close>) and the JSON body, if any.
\<close>

datatype http_verb = GET | POST | DELETE

record http_request =
  verb :: http_verb
  url :: string
  body :: "json option"

record axios_response =
  status :: nat
  data :: json

text \<open>The error axios rejects with: its \<open>response\<close> is absent when no response arrived.\<close>

record axios_error =
  err_response :: "axios_response option"

text \<open>
  An async function with one \<open>await\<close>: the request it issues, and what it returns from
  the response once the request is fulfilled. None of the functions of api.js catches:
  a rejected request rejects the call with the same error.
\<close>

datatype 'a async = Await http_request "axios_response \<Rightarrow> 'a"

fun request_of :: "'a async \<Rightarrow> http_request" where
  "request_of (Await r k) = r"

fun resume :: "'a async \<Rightarrow> axios_response \<Rightarrow> 'a" where
  "resume (Await r k) resp = k resp"

definition researchCompany :: "string \<Rightarrow> json async" where
  "researchCompany companyName =
     Await \<lparr>verb = POST, url = ''/research/'',
            body = Some (JObj [(''company_name'', JStr companyName)])\<rparr>
       (\<lambda>response. data response)"

definition sendChatMessage :: "string \<Rightarrow> string \<Rightarrow> json async" where
  "sendChatMessage companyName prompt =
     Await \<lparr>verb = POST, url = ''/chat/'',
            body = Some (JObj [(''company_name'', JStr companyName), (''prompt'', JStr prompt)])\<rparr>
       (\<lambda>response. data response)"

definition getCompanies :: "json async" where
  "getCompanies = Await \<lparr>verb = GET, url = ''/companies/'', body = None\<rparr> (\<lambda>response. data response)"


definition healthCheck :: "json async" where
  "healthCheck = Await \<lparr>verb = GET, url = ''/health'', body = None\<rparr> (\<lambda>response. data response)"

section \<open>components/Visualization.jsx\<close>

text \<open>
  What the component hands to the renderer: the heading, the summary paragraph, the
  chart's data with one cell colour per entry, the total, and the per-source rows.
  \<open>None\<close> is the \<open>null\<close> the component returns when it renders nothing.
  \<open>String.prototype.toUpperCase\<close> follows the Unicode case tables and is a parameter.
\<close>

record view =
  heading :: string
  summary_text :: json
  chartData :: "(string \<times> json) list"
  cells :: "string list"
  total :: json
  stats :: "(string \<times> json) list"

text \<open>What \<open>toUpperCase\<close> does on ASCII: the letters a to z become A to Z.\<close>

definition toUpperCase_ascii :: "string \<Rightarrow> string" where
  "toUpperCase_ascii s =
     map (\<lambda>c. if 97 \<le> (of_char c :: nat) \<and> (of_char c :: nat) \<le> 122
              then char_of ((of_char c :: nat) - 32) else c) s"

definition COLORS :: "string list" where
  "COLORS = [''#a855f7'', ''#ec4899'', ''#f97316'', ''#3b82f6'', ''#10b981'', ''#f59e0b'']"

definition capitalize :: "(string \<Rightarrow> string) \<Rightarrow> string \<Rightarrow> string" where
  "capitalize toUpperCase name = toUpperCase (take 1 name) @ drop 1 name"

definition Visualization :: "(string \<Rightarrow> string) \<Rightarrow> json \<Rightarrow> string \<Rightarrow> js_error + view option" where
  "Visualization toUpperCase dat company =
     (if \<not> truthy dat then Inr None
      else
        (case get_prop dat ''summary'' of Inl e \<Rightarrow> Inl e | Inr summary \<Rightarrow>
        (case get_prop dat ''sources_breakdown'' of Inl e \<Rightarrow> Inl e | Inr sources_breakdown \<Rightarrow>
        (case get_prop dat ''total_sources'' of Inl e \<Rightarrow> Inl e | Inr total_sources \<Rightarrow>
        (case Object_entries (js_or sources_breakdown (JObj [])) of Inl e \<Rightarrow> Inl e | Inr entries \<Rightarrow>
          (let chart = map (\<lambda>(name, v). (capitalize toUpperCase name, v)) entries
           in Inr (Some \<lparr>heading = company, summary_text = summary, chartData = chart,
                         cells = map (\<lambda>index. COLORS ! (index mod length COLORS)) [0..<length chart],
                         total = total_sources, stats = entries\<rparr>)))))))"

section \<open>components/ChatInterface.jsx\<close>

text \<open>The source writes the two roles as the strings \<open>'user'\<close> and \<open>'assistant'\<close>.\<close>

datatype chat_role = User | Assistant

record message =
  role :: chat_role
  content :: json

record chat_state =
  messages :: "message list"
  input :: string
  loading :: bool

definition greeting :: "string \<Rightarrow> string" where
  "greeting company =
     ''Hi! I've analyzed all the research data for '' @ company @
     ''. Ask me anything about the company!''"

definition apology :: string where
  "apology = ''Sorry, I encountered an error processing your request. Please try again.''"

definition suggestions :: "string list" where
  "suggestions = [''What are the key products?'', ''Recent news and updates?'',
                  ''Market sentiment?'', ''What makes them unique?'']"

text \<open>The three \<open>useState\<close> initial values, taken once when the component mounts.\<close>

definition ChatInterface_init :: "string \<Rightarrow> chat_state" where
  "ChatInterface_init company =
     \<lparr>messages = [\<lparr>role = Assistant, content = JStr (greeting company)\<rparr>],
      input = [], loading = False\<rparr>"

text \<open>
  \<open>handleSubmit\<close> up to its \<open>await\<close>: the new state, and the call it is suspended on
  (\<open>None\<close> when the guard returned early).
\<close>

definition ChatInterface_handleSubmit :: "string \<Rightarrow> chat_state \<Rightarrow> chat_state \<times> json async option" where
  "ChatInterface_handleSubmit company s =
     (if trim (input s) = [] \<or> loading s then (s, None)
      else
        (let userMessage = trim (input s)
         in (s\<lparr>input := [],
               messages := messages s @ [\<lparr>role = User, content = JStr userMessage\<rparr>],
               loading := True\<rparr>,
             Some (sendChatMessage company userMessage))))"

text \<open>
  What a \<open>catch\<close> block can be handed: the rejection of the awaited call, or an error
  raised by the \<open>try\<close> block itself.
\<close>

datatype thrown = Rejection axios_error | Raised js_error

text \<open>The \<open>catch\<close> block, which never looks at the error, followed by \<open>finally\<close>.\<close>

definition ChatInterface_catch :: "thrown \<Rightarrow> chat_state \<Rightarrow> chat_state" where
  "ChatInterface_catch err s =
     s\<lparr>messages := messages s @ [\<lparr>role = Assistant, content = JStr apology\<rparr>],
       loading := False\<rparr>"

text \<open>
  \<open>handleSubmit\<close> after its \<open>await\<close>, once \<open>sendChatMessage\<close> has returned \<open>response\<close>:
  \<open>setMessages\<close> is given an updater that reads \<open>response.response\<close>, then \<open>finally\<close>
  clears \<open>loading\<close>. React runs the updater when it renders the component, not inside
  \<open>handleSubmit\<close>'s \<open>try\<close>: on \<open>null\<close> and \<open>undefined\<close> the read throws there, the
  \<open>catch\<close> block never sees it, and the render fails (\<open>Inl\<close>) with no new state.
\<close>

definition ChatInterface_fulfilled :: "json \<Rightarrow> chat_state \<Rightarrow> js_error + chat_state" where
  "ChatInterface_fulfilled response s =
     (case get_prop response ''response'' of
        Inl e \<Rightarrow> Inl e
      | Inr answer \<Rightarrow>
          Inr (s\<lparr>messages := messages s @ [\<lparr>role = Assistant, content = answer\<rparr>],
                 loading := False\<rparr>))"

text \<open>
  One mounted ChatInterface: its state, the calls of its \<open>handleSubmit\<close> that are
  awaiting a response, and whether a render of it has failed. A failed render commits
  no state (\<open>cstate\<close> stays the last state rendered) and takes the component off the
  screen for good. An event is something the user does (typing, clicking one of the
  suggested questions that are offered while there is at most one message, submitting
  the form) or the settling of the \<open>i\<close>-th call in flight. A step returns the traffic
  it causes on the network. Whether the component is on screen for the user to act on
  is for the page to say: the handlers themselves cannot tell.
\<close>

datatype net_event =
    Sent http_request
  | Fulfilled http_request axios_response
  | Failed http_request axios_error

datatype chat_event =
    TypeInput string
  | ClickSuggestion nat
  | SubmitChat
  | ChatFulfilled nat axios_response
  | ChatRejected nat axios_error

record chat_world =
  cstate :: chat_state
  inflight :: "json async list"
  crashed :: bool

definition ChatInterface_mount :: "string \<Rightarrow> chat_world" where
  "ChatInterface_mount company =
     \<lparr>cstate = ChatInterface_init company, inflight = [], crashed = False\<rparr>"

definition remove_nth :: "nat \<Rightarrow> 'a list \<Rightarrow> 'a list" where
  "remove_nth i xs = take i xs @ drop (Suc i) xs"

fun ChatInterface_step :: "string \<Rightarrow> chat_event \<Rightarrow> chat_world \<Rightarrow> chat_world \<times> net_event list" where
  "ChatInterface_step company (TypeInput v) w = (w\<lparr>cstate := (cstate w)\<lparr>input := v\<rparr>\<rparr>, [])"
| "ChatInterface_step company (ClickSuggestion i) w =
     (if length (messages (cstate w)) \<le> 1 \<and> i < length suggestions
      then (w\<lparr>cstate := (cstate w)\<lparr>input := suggestions ! i\<rparr>\<rparr>, [])
      else (w, []))"
| "ChatInterface_step company SubmitChat w =
     (case ChatInterface_handleSubmit company (cstate w) of
        (s, None) \<Rightarrow> (w\<lparr>cstate := s\<rparr>, [])
      | (s, Some call) \<Rightarrow>
          (w\<lparr>cstate := s, inflight := inflight w @ [call]\<rparr>, [Sent (request_of call)]))"
| "ChatInterface_step company (ChatFulfilled i resp) w =
     (if i < length (inflight w)
      then (case ChatInterface_fulfilled (resume (inflight w ! i) resp) (cstate w) of
              Inl e \<Rightarrow>
                (w\<lparr>inflight := remove_nth i (inflight w), crashed := True\<rparr>,
                 [Fulfilled (request_of (inflight w ! i)) resp])
            | Inr s \<Rightarrow>
                (w\<lparr>cstate := s, inflight := remove_nth i (inflight w)\<rparr>,
                 [Fulfilled (request_of (inflight w ! i)) resp]))
      else (w, []))"
| "ChatInterface_step company (ChatRejected i err) w =
     (if i < length (inflight w)
      then (w\<lparr>cstate := ChatInterface_catch (Rejection err) (cstate w),
              inflight := remove_nth i (inflight w)\<rparr>,
            [Failed (request_of (inflight w ! i)) err])
      else (w, []))"

text \<open>A run of one mounted ChatInterface whose \<open>company\<close> prop stays the same.\<close>

fun chat_run :: "string \<Rightarrow> chat_event list \<Rightarrow> chat_world \<Rightarrow> chat_world" where
  "chat_run company [] w = w"
| "chat_run company (e # es) w = chat_run company es (fst (ChatInterface_step company e w))"

text \<open>The roles of a message list take turns, starting with \<open>r\<close>.\<close>

fun other :: "chat_role \<Rightarrow> chat_role" where
  "other User = Assistant"
| "other Assistant = User"

fun alternates :: "chat_role \<Rightarrow> message list \<Rightarrow> bool" where
  "alternates r [] = True"
| "alternates r (m # ms) = (role m = r \<and> alternates (other r) ms)"

section \<open>components/ResearchForm.jsx\<close>

text \<open>
  The four \<open>useState\<close> cells. \<open>form_loading\<close> is the component's \<open>loading\<close>. \<open>error\<close> is
  whatever \<open>setError\<close> was given, which need not be a string.
\<close>

record form_state =
  companyName :: string
  form_loading :: bool
  error :: json
  progress :: string

definition ResearchForm_init :: form_state where
  "ResearchForm_init = \<lparr>companyName = [], form_loading = False, error = JStr [], progress = []\<rparr>"

definition simulateProgress :: "string list" where
  "simulateProgress =
     [''Searching for company data...'',
      ''Planning data collection strategy...'',
      ''Fetching from multiple sources...'',
      ''Cleaning and processing data...'',
      ''Storing in vector database...'',
      ''Generating insights and summary...'']"

text \<open>
  The variables one invocation of \<open>handleSubmit\<close> closes over: the \<open>companyName\<close> of the
  render it ran in, \<open>currentStep\<close>, whether \<open>progressInterval\<close> is still set, and how
  far the invocation has come: suspended on its \<open>await\<close>, with its \<open>setTimeout\<close> callback
  scheduled (holding \<open>response\<close>), or with nothing left to run.
\<close>

datatype phase = Awaiting | Scheduled json | Settled

record closure =
  captured :: string
  currentStep :: nat
  progressInterval :: bool
  stage :: phase

text \<open>\<open>handleSubmit\<close> up to its \<open>await\<close>.\<close>

definition ResearchForm_handleSubmit :: "form_state \<Rightarrow> form_state \<times> (closure \<times> json async) option" where
  "ResearchForm_handleSubmit s =
     (if trim (companyName s) = [] then (s, None)
      else
        (s\<lparr>form_loading := True, error := JStr [], progress := ''Initializing AI agents...''\<rparr>,
         Some (\<lparr>captured = companyName s, currentStep = 0, progressInterval = True, stage = Awaiting\<rparr>,
               researchCompany (companyName s))))"

text \<open>The callback given to \<open>setInterval\<close>.\<close>

definition ResearchForm_interval :: "closure \<Rightarrow> form_state \<Rightarrow> closure \<times> form_state" where
  "ResearchForm_interval c s =
     (if currentStep c < length simulateProgress
      then (c\<lparr>currentStep := currentStep c + 1\<rparr>, s\<lparr>progress := simulateProgress ! currentStep c\<rparr>)
      else (c, s))"

text \<open>
  \<open>handleSubmit\<close> after its \<open>await\<close>, once \<open>researchCompany\<close> has returned \<open>response\<close>:
  \<open>clearInterval\<close>, \<open>setProgress\<close>, \<open>setTimeout\<close>, then \<open>finally\<close>.
\<close>

definition ResearchForm_fulfilled :: "json \<Rightarrow> closure \<Rightarrow> form_state \<Rightarrow> closure \<times> form_state" where
  "ResearchForm_fulfilled response c s =
     (c\<lparr>progressInterval := False, stage := Scheduled response\<rparr>,
      s\<lparr>progress := ''Research complete!'', form_loading := False\<rparr>)"

text \<open>
  The \<open>catch\<close> block, \<open>err.response?.data?.error || '...'\<close>, then \<open>finally\<close>. The
  interval is not cleared on this path.
\<close>

definition ResearchForm_catch :: "axios_error \<Rightarrow> closure \<Rightarrow> form_state \<Rightarrow> closure \<times> form_state" where
  "ResearchForm_catch err c s =
     (c\<lparr>stage := Settled\<rparr>,
      s\<lparr>error := js_or (case err_response err of
                          None \<Rightarrow> JUndefined
                        | Some r \<Rightarrow> opt_chain (data r) ''error'')
                       (JStr ''Failed to research company. Please try again.''),
        progress := [],
        form_loading := False\<rparr>)"

text \<open>
  The callback given to \<open>setTimeout\<close>: the arguments it calls \<open>onResearchComplete\<close> with.
  Reading \<open>response.viz_data\<close> throws on \<open>null\<close> and \<open>undefined\<close>; the callback runs
  outside \<open>handleSubmit\<close>'s \<open>try\<close>, so nothing catches that.
\<close>

definition ResearchForm_timeout :: "json \<Rightarrow> closure \<Rightarrow> js_error + string \<times> json" where
  "ResearchForm_timeout response c =
     (case get_prop response ''viz_data'' of
        Inl e \<Rightarrow> Inl e
      | Inr viz_data \<Rightarrow> Inr (captured c, viz_data))"

text \<open>What the user sees of \<open>progress\<close>: the box is rendered under \<open>loading && progress\<close>.\<close>

definition shown_progress :: "form_state \<Rightarrow> string option" where
  "shown_progress s = (if form_loading s \<and> progress s \<noteq> [] then Some (progress s) else None)"

text \<open>
  One mounted ResearchForm: its state and the closures of every \<open>handleSubmit\<close> it has
  run. Besides the traffic on the network, a step can call the \<open>onResearchComplete\<close>
  prop.
\<close>

datatype effect = Net net_event | OnResearchComplete string json

datatype form_event =
    TypeCompany string
  | SubmitResearch
  | IntervalFires nat
  | ResearchFulfilled nat axios_response
  | ResearchRejected nat axios_error
  | TimeoutFires nat

record form_world =
  fstate :: form_state
  closures :: "closure list"

definition ResearchForm_mount :: form_world where
  "ResearchForm_mount = \<lparr>fstate = ResearchForm_init, closures = []\<rparr>"

fun ResearchForm_step :: "form_event \<Rightarrow> form_world \<Rightarrow> form_world \<times> effect list" where
  "ResearchForm_step (TypeCompany v) w = (w\<lparr>fstate := (fstate w)\<lparr>companyName := v\<rparr>\<rparr>, [])"
| "ResearchForm_step SubmitResearch w =
     (case ResearchForm_handleSubmit (fstate w) of
        (s, None) \<Rightarrow> (w\<lparr>fstate := s\<rparr>, [])
      | (s, Some (c, call)) \<Rightarrow>
          (w\<lparr>fstate := s, closures := closures w @ [c]\<rparr>, [Net (Sent (request_of call))]))"
| "ResearchForm_step (IntervalFires i) w =
     (if i < length (closures w) \<and> progressInterval (closures w ! i)
      then (case ResearchForm_interval (closures w ! i) (fstate w) of
              (c, s) \<Rightarrow> (w\<lparr>fstate := s, closures := (closures w)[i := c]\<rparr>, []))
      else (w, []))"
| "ResearchForm_step (ResearchFulfilled i resp) w =
     (if i < length (closures w) \<and> stage (closures w ! i) = Awaiting
      then (let call = researchCompany (captured (closures w ! i))
            in case ResearchForm_fulfilled (resume call resp) (closures w ! i) (fstate w) of
                 (c, s) \<Rightarrow> (w\<lparr>fstate := s, closures := (closures w)[i := c]\<rparr>,
                            [Net (Fulfilled (request_of call) resp)]))
      else (w, []))"
| "ResearchForm_step (ResearchRejected i err) w =
     (if i < length (closures w) \<and> stage (closures w ! i) = Awaiting
      then (let call = researchCompany (captured (closures w ! i))
            in case ResearchForm_catch err (closures w ! i) (fstate w) of
                 (c, s) \<Rightarrow> (w\<lparr>fstate := s, closures := (closures w)[i := c]\<rparr>,
                            [Net (Failed (request_of call) err)]))
      else (w, []))"
| "ResearchForm_step (TimeoutFires i) w =
     (if i < length (closures w)
      then (case stage (closures w ! i) of
              Scheduled response \<Rightarrow>
                (w\<lparr>closures := (closures w)[i := (closures w ! i)\<lparr>stage := Settled\<rparr>]\<rparr>,
                 case ResearchForm_timeout response (closures w ! i) of
                   Inl e \<Rightarrow> []
                 | Inr (company, viz_data) \<Rightarrow> [OnResearchComplete company viz_data])
            | Awaiting \<Rightarrow> (w, [])
            | Settled \<Rightarrow> (w, []))
      else (w, []))"

fun form_run :: "form_event list \<Rightarrow> form_world \<Rightarrow> form_world" where
  "form_run [] w = w"
| "form_run (e # es) w = form_run es (fst (ResearchForm_step e w))"

section \<open>App.jsx\<close>

text \<open>The source writes the two steps as the strings \<open>'research'\<close> and \<open>'chat'\<close>.\<close>

datatype app_step = Research | Chat

record app_state =
  step :: app_step
  currentCompany :: string
  vizData :: json

definition App_init :: app_state where
  "App_init = \<lparr>step = Research, currentCompany = [], vizData = JNull\<rparr>"

definition handleResearchComplete :: "string \<Rightarrow> json \<Rightarrow> app_state \<Rightarrow> app_state" where
  "handleResearchComplete company dat a = a\<lparr>currentCompany := company, vizData := dat, step := Chat\<rparr>"

definition handleStartNew :: "app_state \<Rightarrow> app_state" where
  "handleStartNew a = a\<lparr>step := Research, currentCompany := [], vizData := JNull\<rparr>"

text \<open>\<open>{vizData && <Visualization data={vizData} company={currentCompany} />}\<close> in the chat step.\<close>

definition App_visualization :: "(string \<Rightarrow> string) \<Rightarrow> app_state \<Rightarrow> js_error + view option" where
  "App_visualization toUpperCase a =
     (if step a = Chat \<and> truthy (vizData a)
      then Visualization toUpperCase (vizData a) (currentCompany a)
      else Inr None)"

text \<open>
  The whole page. App renders ResearchForm in the research step and ChatInterface
  (with \<open>company = currentCompany\<close>) in the chat step, so a change of step unmounts one
  and mounts the other afresh. Nothing cancels the timers and requests of an unmounted
  component: its closures go on running, their state updates reach nobody, and their
  call of \<open>onResearchComplete\<close> still reaches App. So the page keeps every component it
  has mounted, the last of each kind being the one on screen in its step; \<open>network\<close> is
  the traffic so far, oldest first. No error boundary surrounds anything: when a render
  of the component on screen fails, React takes the whole page off the screen
  (\<open>page_crashed\<close>); from then on the user can do nothing, App's state is out of reach,
  and only timers and responses still come back.
\<close>

record page =
  app :: app_state
  forms :: "form_world list"
  chats :: "chat_world list"
  network :: "net_event list"
  page_crashed :: bool

definition page_init :: page where
  "page_init =
     \<lparr>app = App_init, forms = [ResearchForm_mount], chats = [], network = [], page_crashed = False\<rparr>"

text \<open>
  An event names the component it happens in. What the user does can only happen in
  the component on screen; a timer or a response can come back to any component.
  A failed render crashes the page when it is the render of the chat on screen (React
  does not render a component it has unmounted). The New Research button is rendered
  under \<open>currentCompany && ...\<close>.
\<close>

datatype event =
    InForm nat form_event
  | InChat nat chat_event
  | ClickNewResearch

fun user_form_event :: "form_event \<Rightarrow> bool" where
  "user_form_event (TypeCompany v) = True"
| "user_form_event SubmitResearch = True"
| "user_form_event e = False"

fun user_chat_event :: "chat_event \<Rightarrow> bool" where
  "user_chat_event (TypeInput v) = True"
| "user_chat_event (ClickSuggestion i) = True"
| "user_chat_event SubmitChat = True"
| "user_chat_event e = False"

definition form_on_screen :: "page \<Rightarrow> nat \<Rightarrow> bool" where
  "form_on_screen p i = (\<not> page_crashed p \<and> step (app p) = Research \<and> Suc i = length (forms p))"

definition chat_on_screen :: "page \<Rightarrow> nat \<Rightarrow> bool" where
  "chat_on_screen p i = (\<not> page_crashed p \<and> step (app p) = Chat \<and> Suc i = length (chats p))"

fun net_of :: "effect list \<Rightarrow> net_event list" where
  "net_of [] = []"
| "net_of (Net n # es) = n # net_of es"
| "net_of (OnResearchComplete company dat # es) = net_of es"

text \<open>
  The calls of \<open>onResearchComplete\<close> among the effects of a step, run in order. On a
  page that has crashed App is unmounted and its state setters do nothing.
\<close>

fun deliver :: "effect list \<Rightarrow> page \<Rightarrow> page" where
  "deliver [] p = p"
| "deliver (Net n # es) p = deliver es p"
| "deliver (OnResearchComplete company dat # es) p =
     deliver es
       (if page_crashed p then p
        else p\<lparr>app := handleResearchComplete company dat (app p),
               chats := (if step (app p) = Chat then chats p
                         else chats p @ [ChatInterface_mount company])\<rparr>)"

fun page_step :: "event \<Rightarrow> page \<Rightarrow> page" where
  "page_step (InForm i e) p =
     (if i < length (forms p) \<and> (if user_form_event e then form_on_screen p i else True)
      then (case ResearchForm_step e (forms p ! i) of
              (w, effects) \<Rightarrow>
                deliver effects (p\<lparr>forms := (forms p)[i := w], network := network p @ net_of effects\<rparr>))
      else p)"
| "page_step (InChat i e) p =
     (if i < length (chats p) \<and> (if user_chat_event e then chat_on_screen p i else True)
      then (case ChatInterface_step (currentCompany (app p)) e (chats p ! i) of
              (w, traffic) \<Rightarrow>
                p\<lparr>chats := (chats p)[i := w], network := network p @ traffic,
                  page_crashed := (page_crashed p \<or> chat_on_screen p i \<and> crashed w)\<rparr>)
      else p)"
| "page_step ClickNewResearch p =
     (if currentCompany (app p) \<noteq> [] \<and> \<not> page_crashed p
      then p\<lparr>app := handleStartNew (app p),
             forms := (if step (app p) = Research then forms p else forms p @ [ResearchForm_mount])\<rparr>
      else p)"

fun page_run :: "event list \<Rightarrow> page \<Rightarrow> page" where
  "page_run [] p = p"
| "page_run (e # es) p = page_run es (page_step e p)"

section \<open>The vector store and the chat engine\<close>

text \<open>
  Modelled from the spec: the kinds of source (section 3, \<open>source_type\<close>). The backend
  is not among the sources.
\<close>

datatype source_type = Web | News | Forum | CodeHost

text \<open>
  Modelled from the spec: a Document as the cleaning stage returns it (section 4.2),
  with its dedup-key and without an embedding yet.
\<close>

record clean_document =
  dedup_key :: string
  source :: source_type
  cleaned_text :: string

text \<open>
  Modelled from the spec: a Document as the vector store holds it (section 3): its id
  (the dedup-key), the company it belongs to, the kind of source, the text and the
  embedding. The type of vectors is left open.
\<close>

record 'v document =
  doc_id :: string
  company_id :: string
  doc_source :: source_type
  doc_text :: string
  embedding :: 'v

text \<open>
  Modelled from the spec: the vector store (sections 3 and 6). Each company owns one
  collection, keyed by dedup-key; a company that was never researched has none.
\<close>

type_synonym 'v collection = "(string \<times> 'v document) list"

type_synonym 'v store = "string \<Rightarrow> 'v collection option"

text \<open>Modelled from the spec: the store before any company has been researched.\<close>

definition empty_store :: "'v store" where
  "empty_store = (\<lambda>company. None)"

text \<open>Modelled from the spec: upsert by key (section 6) overwrites, never duplicates.\<close>

fun upsert :: "string \<Rightarrow> 'v document \<Rightarrow> 'v collection \<Rightarrow> 'v collection" where
  "upsert k d [] = [(k, d)]"
| "upsert k d ((k', d') # rest) = (if k = k' then (k, d) # rest else (k', d') # upsert k d rest)"

text \<open>Modelled from the spec: \<open>IndexResult{written, skipped, failed}\<close> (section 4.3).\<close>

record index_result =
  written :: nat
  skipped :: nat
  failed :: nat

text \<open>
  Modelled from the spec: indexing one Document (section 4.3). The embedding provider
  may fail, which counts the Document as failed and goes on; an unchanged Document is
  skipped; otherwise the Document is upserted under its dedup-key into the collection
  of the company it is indexed for.
\<close>

definition index_one ::
  "(string \<Rightarrow> 'v option) \<Rightarrow> string \<Rightarrow> clean_document \<Rightarrow> 'v collection \<times> index_result
     \<Rightarrow> 'v collection \<times> index_result" where
  "index_one embed_text company d acc =
     (case embed_text (cleaned_text d) of
        None \<Rightarrow> (fst acc, (snd acc)\<lparr>failed := failed (snd acc) + 1\<rparr>)
      | Some v \<Rightarrow>
          (let doc = \<lparr>doc_id = dedup_key d, company_id = company, doc_source = source d,
                      doc_text = cleaned_text d, embedding = v\<rparr>
           in if map_of (fst acc) (dedup_key d) = Some doc
              then (fst acc, (snd acc)\<lparr>skipped := skipped (snd acc) + 1\<rparr>)
              else (upsert (dedup_key d) doc (fst acc), (snd acc)\<lparr>written := written (snd acc) + 1\<rparr>)))"

text \<open>
  Modelled from the spec: \<open>index(company_id, sequence of Document)\<close> (section 4.3)
  writes into the collection of that company and into no other.
\<close>

definition index :: "(string \<Rightarrow> 'v option) \<Rightarrow> string \<Rightarrow> clean_document list \<Rightarrow> 'v store
     \<Rightarrow> 'v store \<times> index_result" where
  "index embed_text company docs st =
     (let acc = fold (index_one embed_text company) docs
                  (case st company of None \<Rightarrow> [] | Some coll \<Rightarrow> coll,
                   \<lparr>written = 0, skipped = 0, failed = 0\<rparr>)
      in (st(company := Some (fst acc)), snd acc))"

text \<open>Modelled from the spec: delete-by-company (section 6), the explicit reset.\<close>

definition reset :: "string \<Rightarrow> 'v store \<Rightarrow> 'v store" where
  "reset company st = st(company := None)"


text \<open>
  Modelled from the spec: top-k similarity search within one collection (section 6),
  nearest first. The similarity metric and \<open>k\<close> are configuration (section 9).
\<close>

definition top_k :: "('v \<Rightarrow> 'v \<Rightarrow> int) \<Rightarrow> nat \<Rightarrow> 'v \<Rightarrow> 'v collection \<Rightarrow> 'v document list" where
  "top_k similarity k q coll =
     take k (rev (sort_key (\<lambda>d. similarity q (embedding d)) (map snd coll)))"

text \<open>
  Modelled from the spec: the error kinds of a chat call (section 7): not-found, and
  the failure of a dependency.
\<close>

datatype chat_error = NotFoundError | DependencyError

text \<open>
  Modelled from the spec: the retrieval of the Chat Engine (section 4.5). It fails
  with NotFoundError when the company has no collection, and otherwise searches that
  company's collection only, with the embedded question.
\<close>

definition retrieve ::
  "(string \<Rightarrow> 'v option) \<Rightarrow> ('v \<Rightarrow> 'v \<Rightarrow> int) \<Rightarrow> nat \<Rightarrow> 'v store \<Rightarrow> string \<Rightarrow> string
     \<Rightarrow> chat_error + 'v document list" where
  "retrieve embed_text similarity k st company question =
     (case st company of
        None \<Rightarrow> Inl NotFoundError
      | Some coll \<Rightarrow>
          (case embed_text question of
             None \<Rightarrow> Inl DependencyError
           | Some q \<Rightarrow> Inr (top_k similarity k q coll)))"

text \<open>
  Modelled from the spec: what happens to the store over time: research runs index
  Documents for a company, resets delete a company.
\<close>

datatype store_op = Index string "clean_document list" | Reset string

text \<open>Modelled from the spec: one such operation on the store (sections 4.3 and 6).\<close>

fun apply_op :: "(string \<Rightarrow> 'v option) \<Rightarrow> store_op \<Rightarrow> 'v store \<Rightarrow> 'v store" where
  "apply_op embed_text (Index company docs) st = fst (index embed_text company docs st)"
| "apply_op embed_text (Reset company) st = reset company st"

text \<open>Modelled from the spec: a history of such operations, oldest first.\<close>

fun run_ops :: "(string \<Rightarrow> 'v option) \<Rightarrow> store_op list \<Rightarrow> 'v store \<Rightarrow> 'v store" where
  "run_ops embed_text [] st = st"
| "run_ops embed_text (op # ops) st = run_ops embed_text ops (apply_op embed_text op st)"

text \<open>
  Modelled from the spec: the Documents indexed under a company are those its
  collection holds (section 3).
\<close>

definition documents_of :: "'v store \<Rightarrow> string \<Rightarrow> 'v document list" where
  "documents_of st company = (case st company of None \<Rightarrow> [] | Some coll \<Rightarrow> map snd coll)"

text \<open>
  What indexing and resetting keep: every Document sits in the collection of the company
  it names.
\<close>

definition store_ok :: "'v store \<Rightarrow> bool" where
  "store_ok st \<longleftrightarrow> (\<forall>company. list_all (\<lambda>d. company_id d = company) (documents_of st company))"

section \<open>Invariants\<close>

text \<open>A string that consists only of white space (the empty string included).\<close>

definition blank :: "string \<Rightarrow> bool" where
  "blank s = list_all is_ws s"

text \<open>Every message of the user is a string that is not blank.\<close>

definition user_msgs_ok :: "message list \<Rightarrow> bool" where
  "user_msgs_ok ms = list_all (\<lambda>m. role m = Assistant \<or> (\<exists>t. content m = JStr t \<and> \<not> blank t)) ms"

text \<open>
  What every step of a mounted ChatInterface keeps: \<open>loading\<close> is set while a call is in
  flight, and only then unless a render has failed; there is at most one call in
  flight; the roles take turns from the assistant's greeting on; and the list is odd
  exactly when \<open>loading\<close> is clear.
\<close>

definition chat_inv :: "chat_world \<Rightarrow> bool" where
  "chat_inv w \<longleftrightarrow>
     (inflight w \<noteq> [] \<longrightarrow> loading (cstate w)) \<and>
     (loading (cstate w) \<longrightarrow> inflight w \<noteq> [] \<or> crashed w) \<and>
     length (inflight w) \<le> 1 \<and>
     alternates Assistant (messages (cstate w)) \<and>
     odd (length (messages (cstate w))) = (\<not> loading (cstate w)) \<and>
     user_msgs_ok (messages (cstate w))"

text \<open>
  A ResearchForm whose one request is unanswered and whose interval has fired \<open>n\<close>
  times.
\<close>

definition ticking :: "string \<Rightarrow> nat \<Rightarrow> form_world" where
  "ticking name n =
     \<lparr>fstate = \<lparr>companyName = name, form_loading = True, error = JStr [],
                progress = (if n = 0 then ''Initializing AI agents...''
                            else simulateProgress ! (min n 6 - 1))\<rparr>,
      closures = [\<lparr>captured = name, currentStep = min n 6, progressInterval = True, stage = Awaiting\<rparr>]\<rparr>"

text \<open>
  The traffic holds the fulfilment of a research request for the company: its research
  has completed successfully.
\<close>

fun fulfils :: "http_request \<Rightarrow> net_event \<Rightarrow> bool" where
  "fulfils r (Fulfilled r' resp) = (r' = r)"
| "fulfils r n = False"

definition researched :: "net_event list \<Rightarrow> string \<Rightarrow> bool" where
  "researched log company = list_ex (fulfils (request_of (researchCompany company))) log"

text \<open>
  What every step of the page keeps: in the chat step the current company has been
  researched; so has the company of every closure whose timeout is scheduled; and every
  chat request in the traffic comes after the fulfilment of a research request for its
  company.
\<close>

fun closure_ok :: "net_event list \<Rightarrow> closure \<Rightarrow> bool" where
  "closure_ok log c = (case stage c of Scheduled r \<Rightarrow> researched log (captured c) | Awaiting \<Rightarrow> True | Settled \<Rightarrow> True)"

definition closures_ok :: "net_event list \<Rightarrow> form_world \<Rightarrow> bool" where
  "closures_ok log w = list_all (closure_ok log) (closures w)"

definition chats_after_research :: "net_event list \<Rightarrow> bool" where
  "chats_after_research log \<longleftrightarrow>
     (\<forall>i c q. i < length log \<and> log ! i = Sent (request_of (sendChatMessage c q)) \<longrightarrow>
        researched (take i log) c)"

definition page_inv :: "page \<Rightarrow> bool" where
  "page_inv p \<longleftrightarrow>
     (step (app p) = Chat \<longrightarrow> researched (network p) (currentCompany (app p))) \<and>
     list_all (closures_ok (network p)) (forms p) \<and>
     chats_after_research (network p)"

section \<open>Verification\<close>

subsection \<open>JavaScript helpers\<close>

lemma get_prop_truthy: "truthy x \<Longrightarrow> \<exists>v. get_prop x k = Inr v"
  by (cases x) simp_all

lemma Object_entries_truthy: "truthy x \<Longrightarrow> \<exists>es. Object_entries x = Inr es"
  by (cases x) simp_all

lemma dropWhile_all_iff: "(\<forall>x\<in>set (dropWhile P xs). P x) \<longleftrightarrow> dropWhile P xs = []"
proof
  assume a: "\<forall>x\<in>set (dropWhile P xs). P x"
  show "dropWhile P xs = []"
  proof (rule ccontr)
    assume n: "dropWhile P xs \<noteq> []"
    then have "\<not> P (hd (dropWhile P xs))" by (rule hd_dropWhile)
    moreover have "hd (dropWhile P xs) \<in> set (dropWhile P xs)" using n by simp
    ultimately show False using a by blast
  qed
next
  assume e: "dropWhile P xs = []"
  show "\<forall>x\<in>set (dropWhile P xs). P x" unfolding e by simp
qed

lemma trim_empty_iff: "trim s = [] \<longleftrightarrow> blank s"
proof -
  have "trim s = [] \<longleftrightarrow> dropWhile is_ws (rev (dropWhile is_ws s)) = []"
    by (simp add: trim_def)
  also have "\<dots> \<longleftrightarrow> (\<forall>x\<in>set (dropWhile is_ws s). is_ws x)"
    by (simp only: dropWhile_eq_Nil_conv set_rev)
  also have "\<dots> \<longleftrightarrow> dropWhile is_ws s = []"
    by (rule dropWhile_all_iff)
  also have "\<dots> \<longleftrightarrow> blank s"
    by (simp only: dropWhile_eq_Nil_conv blank_def list_all_iff)
  finally show ?thesis .
qed

lemma trim_not_blank: "trim s \<noteq> [] \<Longrightarrow> \<not> blank (trim s)"
proof -
  assume a: "trim s \<noteq> []"
  let ?d = "dropWhile is_ws (rev (dropWhile is_ws s))"
  from a have n: "?d \<noteq> []" by (simp add: trim_def)
  then have "\<not> is_ws (hd ?d)"
    by (rule hd_dropWhile)
  moreover have "hd ?d \<in> set ?d" using n by (rule hd_in_set)
  moreover have "set (trim s) = set ?d" by (simp only: trim_def set_rev)
  ultimately show ?thesis unfolding blank_def list_all_iff by blast
qed

subsection \<open>The visualization\<close>

text \<open>
  C10. Visualization renders nothing for \<open>null\<close> and for \<open>undefined\<close>. For any other
  data without a \<open>sources_breakdown\<close>, the chart's data and the per-source rows are
  empty. It throws on no input at all.
\<close>

theorem Visualization_missing_inputs:
  "Visualization toUpperCase JNull company = Inr None
   \<and> Visualization toUpperCase JUndefined company = Inr None
   \<and> (truthy dat \<and> get_prop dat ''sources_breakdown'' = Inr JUndefined \<longrightarrow>
        (\<exists>v. Visualization toUpperCase dat company = Inr (Some v) \<and> chartData v = [] \<and> stats v = []))
   \<and> (\<exists>r. Visualization toUpperCase dat company = Inr r)"
proof -
  have a: "Visualization toUpperCase JNull company = Inr None"
    "Visualization toUpperCase JUndefined company = Inr None"
    by (simp_all add: Visualization_def)
  have b: "truthy dat \<and> get_prop dat ''sources_breakdown'' = Inr JUndefined \<longrightarrow>
        (\<exists>v. Visualization toUpperCase dat company = Inr (Some v) \<and> chartData v = [] \<and> stats v = [])"
  proof
    assume h: "truthy dat \<and> get_prop dat ''sources_breakdown'' = Inr JUndefined"
    then obtain x y where "get_prop dat ''summary'' = Inr x" "get_prop dat ''total_sources'' = Inr y"
      using get_prop_truthy by blast
    then show "\<exists>v. Visualization toUpperCase dat company = Inr (Some v) \<and> chartData v = [] \<and> stats v = []"
      using h by (simp add: Visualization_def js_or_def)
  qed
  have c: "\<exists>r. Visualization toUpperCase dat company = Inr r"
  proof (cases "truthy dat")
    case False
    then show ?thesis by (simp add: Visualization_def)
  next
    case True
    then obtain x y z where g: "get_prop dat ''summary'' = Inr x"
      "get_prop dat ''sources_breakdown'' = Inr y" "get_prop dat ''total_sources'' = Inr z"
      using get_prop_truthy by metis
    have "truthy (js_or y (JObj []))" by (simp add: js_or_def)
    then obtain es where "Object_entries (js_or y (JObj [])) = Inr es"
      using Object_entries_truthy by blast
    then show ?thesis using True g by (simp add: Visualization_def Let_def)
  qed
  from a b c show ?thesis by blast
qed

theorem Visualization_missing_inputs_witness:
  "truthy (JObj [(''summary'', JStr ''Acme makes widgets.''), (''total_sources'', JNum 6)])
   \<and> (\<exists>v. Visualization toUpperCase_ascii (JObj [(''summary'', JStr ''Acme makes widgets.''), (''total_sources'', JNum 6)]) ''Acme'' = Inr (Some v)
          \<and> chartData v = [] \<and> stats v = [])"
  using Visualization_missing_inputs [of toUpperCase_ascii "''Acme''"
      "JObj [(''summary'', JStr ''Acme makes widgets.''), (''total_sources'', JNum 6)]"]
  by simp

subsection \<open>One mounted ChatInterface\<close>

lemma other_other: "other (other r) = r"
  by (cases r) simp_all

lemma alternates_snoc:
  "alternates r (ms @ [m]) \<longleftrightarrow> alternates r ms \<and> role m = (if even (length ms) then r else other r)"
  by (induction ms arbitrary: r) (auto simp: other_other)

lemma chat_inv_mount: "chat_inv (ChatInterface_mount c)"
  by (simp add: chat_inv_def ChatInterface_mount_def ChatInterface_init_def user_msgs_ok_def)

lemma inflight_le1: "length xs \<le> Suc 0 \<Longrightarrow> i < length xs \<Longrightarrow> remove_nth i xs = []"
  by (cases xs) (auto simp: remove_nth_def)

lemma chat_inv_submit:
  assumes "chat_inv w"
  shows "chat_inv (fst (ChatInterface_step c SubmitChat w))"
proof (cases "trim (input (cstate w)) = [] \<or> loading (cstate w)")
  case True
  then have "ChatInterface_handleSubmit c (cstate w) = (cstate w, None)"
    by (simp add: ChatInterface_handleSubmit_def)
  then show ?thesis using assms by (simp add: chat_inv_def)
next
  case False
  then have h: "ChatInterface_handleSubmit c (cstate w) =
      ((cstate w)\<lparr>input := [],
         messages := messages (cstate w) @ [\<lparr>role = User, content = JStr (trim (input (cstate w)))\<rparr>],
         loading := True\<rparr>, Some (sendChatMessage c (trim (input (cstate w)))))"
    by (simp add: ChatInterface_handleSubmit_def Let_def)
  from False have nb: "\<not> blank (trim (input (cstate w)))" by (simp add: trim_not_blank)
  from False assms have e: "inflight w = []" "odd (length (messages (cstate w)))"
    by (auto simp: chat_inv_def)
  show ?thesis using assms nb e
    by (simp add: h chat_inv_def alternates_snoc user_msgs_ok_def)
qed

lemma chat_inv_settle:
  assumes "chat_inv w" "i < length (inflight w)"
  shows "chat_inv (w\<lparr>cstate := (cstate w)\<lparr>messages := messages (cstate w) @ [\<lparr>role = Assistant, content = a\<rparr>],
                                         loading := False\<rparr>,
                    inflight := remove_nth i (inflight w)\<rparr>)"
proof -
  from assms have l: "loading (cstate w)" "even (length (messages (cstate w)))" "length (inflight w) \<le> Suc 0"
    by (auto simp: chat_inv_def)
  then have "remove_nth i (inflight w) = []" using assms(2) by (simp add: inflight_le1)
  then show ?thesis using assms(1) l
    by (simp add: chat_inv_def alternates_snoc user_msgs_ok_def)
qed

lemma chat_inv_crash:
  assumes "chat_inv w" "i < length (inflight w)"
  shows "chat_inv (w\<lparr>inflight := remove_nth i (inflight w), crashed := True\<rparr>)"
proof -
  from assms have "length (inflight w) \<le> Suc 0" by (simp add: chat_inv_def)
  then have "remove_nth i (inflight w) = []" using assms(2) by (simp add: inflight_le1)
  then show ?thesis using assms(1) by (simp add: chat_inv_def)
qed

lemma chat_inv_step: "chat_inv w \<Longrightarrow> chat_inv (fst (ChatInterface_step c e w))"
proof (cases e)
  case (TypeInput v)
  assume "chat_inv w"
  then show ?thesis using TypeInput by (simp add: chat_inv_def)
next
  case (ClickSuggestion i)
  assume "chat_inv w"
  then show ?thesis using ClickSuggestion by (simp add: chat_inv_def)
next
  case SubmitChat
  assume "chat_inv w"
  then show ?thesis using SubmitChat by (simp only: chat_inv_submit)
next
  case (ChatFulfilled i resp)
  assume a: "chat_inv w"
  show ?thesis
  proof (cases "i < length (inflight w)")
    case True
    then show ?thesis using ChatFulfilled chat_inv_settle [OF a True] chat_inv_crash [OF a True]
      by (cases "get_prop (resume (inflight w ! i) resp) ''response''")
         (simp_all add: ChatInterface_fulfilled_def)
  next
    case False
    then show ?thesis using ChatFulfilled a by simp
  qed
next
  case (ChatRejected i err)
  assume a: "chat_inv w"
  show ?thesis
  proof (cases "i < length (inflight w)")
    case True
    then show ?thesis using ChatRejected chat_inv_settle [OF a True]
      by (simp add: ChatInterface_catch_def)
  next
    case False
    then show ?thesis using ChatRejected a by simp
  qed
qed

lemma chat_inv_run: "chat_inv w \<Longrightarrow> chat_inv (chat_run c es w)"
  by (induction es arbitrary: w) (simp_all add: chat_inv_step)







text \<open>
  C9, as the code has it. In every state one mounted ChatInterface can reach, submitting
  while the trimmed input is empty or while a call of this component is in flight
  changes nothing and sends nothing; at most one call of this component is in flight;
  every message of the user in the list is a string that is not blank; and what a
  submission sends, if anything, is one chat request whose prompt is not blank.
\<close>

theorem chat_submit_guard:
  "(trim (input (cstate (chat_run company evs (ChatInterface_mount company)))) = []
      \<or> inflight (chat_run company evs (ChatInterface_mount company)) \<noteq> [] \<longrightarrow>
      ChatInterface_step company SubmitChat (chat_run company evs (ChatInterface_mount company)) =
        (chat_run company evs (ChatInterface_mount company), []))
   \<and> length (inflight (chat_run company evs (ChatInterface_mount company))) \<le> 1
   \<and> list_all (\<lambda>m. role m = Assistant \<or> (\<exists>t. content m = JStr t \<and> \<not> blank t))
        (messages (cstate (chat_run company evs (ChatInterface_mount company))))
   \<and> (snd (ChatInterface_step company SubmitChat (chat_run company evs (ChatInterface_mount company))) = []
      \<or> (\<exists>t. \<not> blank t \<and>
            snd (ChatInterface_step company SubmitChat (chat_run company evs (ChatInterface_mount company))) =
              [Sent (request_of (sendChatMessage company t))]))"
proof -
  let ?w = "chat_run company evs (ChatInterface_mount company)"
  have inv: "chat_inv ?w" by (rule chat_inv_run [OF chat_inv_mount])
  then have l: "inflight ?w \<noteq> [] \<longrightarrow> loading (cstate ?w)" by (simp add: chat_inv_def)
  have a: "trim (input (cstate ?w)) = [] \<or> inflight ?w \<noteq> [] \<longrightarrow>
      ChatInterface_step company SubmitChat ?w = (?w, [])"
    using l by (auto simp: ChatInterface_handleSubmit_def)
  have b: "length (inflight ?w) \<le> 1" using inv by (simp add: chat_inv_def)
  have c: "list_all (\<lambda>m. role m = Assistant \<or> (\<exists>t. content m = JStr t \<and> \<not> blank t)) (messages (cstate ?w))"
    using inv by (simp add: chat_inv_def user_msgs_ok_def)
  have d: "snd (ChatInterface_step company SubmitChat ?w) = []
      \<or> (\<exists>t. \<not> blank t \<and> snd (ChatInterface_step company SubmitChat ?w) = [Sent (request_of (sendChatMessage company t))])"
  proof (cases "trim (input (cstate ?w)) = [] \<or> loading (cstate ?w)")
    case True
    then show ?thesis by (auto simp: ChatInterface_handleSubmit_def)
  next
    case False
    then have "\<not> blank (trim (input (cstate ?w)))" by (simp add: trim_not_blank)
    moreover have "snd (ChatInterface_step company SubmitChat ?w) =
        [Sent (request_of (sendChatMessage company (trim (input (cstate ?w)))))]"
      using False by (simp add: ChatInterface_handleSubmit_def Let_def)
    ultimately show ?thesis by blast
  qed
  from a b c d show ?thesis by blast
qed

theorem chat_submit_guard_witness:
  "inflight (chat_run ''Acme'' [TypeInput ''hi'', SubmitChat, TypeInput ''again''] (ChatInterface_mount ''Acme'')) \<noteq> []
   \<and> ChatInterface_step ''Acme'' SubmitChat
        (chat_run ''Acme'' [TypeInput ''hi'', SubmitChat, TypeInput ''again''] (ChatInterface_mount ''Acme'')) =
       (chat_run ''Acme'' [TypeInput ''hi'', SubmitChat, TypeInput ''again''] (ChatInterface_mount ''Acme''), [])
   \<and> trim (input (cstate (chat_run ''Acme'' [TypeInput ''  ''] (ChatInterface_mount ''Acme'')))) = []
   \<and> ChatInterface_step ''Acme'' SubmitChat (chat_run ''Acme'' [TypeInput ''  ''] (ChatInterface_mount ''Acme'')) =
       (chat_run ''Acme'' [TypeInput ''  ''] (ChatInterface_mount ''Acme''), [])"
proof -
  have h1: "inflight (chat_run ''Acme'' [TypeInput ''hi'', SubmitChat, TypeInput ''again''] (ChatInterface_mount ''Acme'')) \<noteq> []"
    by (simp add: ChatInterface_mount_def ChatInterface_init_def ChatInterface_handleSubmit_def
          trim_def is_ws_def Let_def)
  have h2: "trim (input (cstate (chat_run ''Acme'' [TypeInput ''  ''] (ChatInterface_mount ''Acme'')))) = []"
    by (simp add: ChatInterface_mount_def ChatInterface_init_def trim_def is_ws_def)
  from h1 h2 chat_submit_guard [of "''Acme''" "[TypeInput ''hi'', SubmitChat, TypeInput ''again'']"]
    chat_submit_guard [of "''Acme''" "[TypeInput ''  '']"]
  show ?thesis by blast
qed

text \<open>
  C4. Whatever the state, a submission sends nothing or one POST to \<open>/chat/\<close> whose body
  has exactly the fields \<open>company_name\<close> (the \<open>company\<close> prop) and \<open>prompt\<close> (the trimmed
  input), in that order; replacing the message list by any other leaves what is sent
  the same.
\<close>

theorem chat_request_stateless:
  "snd (ChatInterface_step company SubmitChat w) =
     (if trim (input (cstate w)) = [] \<or> loading (cstate w) then []
      else [Sent \<lparr>verb = POST, url = ''/chat/'',
                  body = Some (JObj [(''company_name'', JStr company),
                                     (''prompt'', JStr (trim (input (cstate w))))])\<rparr>])
   \<and> snd (ChatInterface_step company SubmitChat (w\<lparr>cstate := (cstate w)\<lparr>messages := ms\<rparr>\<rparr>)) =
       snd (ChatInterface_step company SubmitChat w)"
  by (simp add: ChatInterface_handleSubmit_def sendChatMessage_def Let_def)

text \<open>
  C3, as the code has it. The \<open>catch\<close> block does not look at the error: whatever made
  the chat call fail, the state afterwards is the same, and the message appended is
  the fixed apology.
\<close>

theorem chat_failure_same_message:
  "ChatInterface_catch e1 s = ChatInterface_catch e2 s
   \<and> last (messages (ChatInterface_catch e1 s)) = \<lparr>role = Assistant, content = JStr apology\<rparr>
   \<and> fst (ChatInterface_step company (ChatRejected i err1) w) =
       fst (ChatInterface_step company (ChatRejected i err2) w)"
  by (simp add: ChatInterface_catch_def)

text \<open>
  C3 as stated has a not-found failure shown differently from a dependency failure.
  A 404 and a 503 answer to the same question leave the same message list, ending in
  the apology.
\<close>

theorem not_found_shown_as_any_failure:
  "messages (cstate (chat_run ''Acme''
       [TypeInput ''hi'', SubmitChat,
        ChatRejected 0 \<lparr>err_response = Some \<lparr>status = 404, data = JObj [(''detail'', JStr ''Company not researched'')]\<rparr>\<rparr>]
       (ChatInterface_mount ''Acme''))) =
   messages (cstate (chat_run ''Acme''
       [TypeInput ''hi'', SubmitChat,
        ChatRejected 0 \<lparr>err_response = Some \<lparr>status = 503, data = JObj [(''detail'', JStr ''LLM provider unreachable'')]\<rparr>\<rparr>]
       (ChatInterface_mount ''Acme'')))
   \<and> content (last (messages (cstate (chat_run ''Acme''
       [TypeInput ''hi'', SubmitChat,
        ChatRejected 0 \<lparr>err_response = Some \<lparr>status = 404, data = JObj [(''detail'', JStr ''Company not researched'')]\<rparr>\<rparr>]
       (ChatInterface_mount ''Acme''))))) =
     JStr ''Sorry, I encountered an error processing your request. Please try again.''"
  by (simp add: ChatInterface_mount_def ChatInterface_init_def ChatInterface_handleSubmit_def
        ChatInterface_catch_def trim_def is_ws_def Let_def apology_def)

subsection \<open>One mounted ResearchForm\<close>

lemma form_run_snoc:
  "form_run (es @ [e]) w = fst (ResearchForm_step e (form_run es w))"
  by (induction es arbitrary: w) simp_all

lemma simulateProgress_length: "length simulateProgress = 6"
  by (simp add: simulateProgress_def)

lemma simulateProgress_nonempty: "k < 6 \<Longrightarrow> simulateProgress ! k \<noteq> []"
proof -
  assume "k < 6"
  then have "k = 0 \<or> k = 1 \<or> k = 2 \<or> k = 3 \<or> k = 4 \<or> k = 5" by arith
  then show ?thesis by (auto simp: simulateProgress_def)
qed

lemma ticking_step: "fst (ResearchForm_step (IntervalFires 0) (ticking name n)) = ticking name (Suc n)"
proof (cases "n < 6")
  case True
  then have "min n 6 = n" "min (Suc n) 6 = Suc n" by simp_all
  then show ?thesis using True
    by (simp add: ticking_def ResearchForm_interval_def simulateProgress_length)
next
  case False
  then have "min n 6 = 6" "min (Suc n) 6 = 6" "n \<noteq> 0" by simp_all
  then show ?thesis
    by (simp add: ticking_def ResearchForm_interval_def simulateProgress_length)
qed

lemma submit_ticking:
  "trim name \<noteq> [] \<Longrightarrow> form_run [TypeCompany name, SubmitResearch] ResearchForm_mount = ticking name 0"
  by (simp add: ticking_def ResearchForm_mount_def ResearchForm_init_def ResearchForm_handleSubmit_def)


lemma run_ticking:
  "trim name \<noteq> [] \<Longrightarrow>
   form_run (TypeCompany name # SubmitResearch # replicate n (IntervalFires 0)) ResearchForm_mount = ticking name n"
proof (induction n)
  case 0
  then have "form_run [TypeCompany name, SubmitResearch] ResearchForm_mount = ticking name 0"
    by (rule submit_ticking)
  then show ?case by simp
next
  case (Suc n)
  have "TypeCompany name # SubmitResearch # replicate (Suc n) (IntervalFires 0) =
        (TypeCompany name # SubmitResearch # replicate n (IntervalFires 0)) @ [IntervalFires 0]"
    by (simp add: replicate_append_same)
  then have "form_run (TypeCompany name # SubmitResearch # replicate (Suc n) (IntervalFires 0)) ResearchForm_mount =
        fst (ResearchForm_step (IntervalFires 0)
              (form_run (TypeCompany name # SubmitResearch # replicate n (IntervalFires 0)) ResearchForm_mount))"
    by (simp only: form_run_snoc)
  also have "\<dots> = fst (ResearchForm_step (IntervalFires 0) (ticking name n))"
    using Suc by simp
  also have "\<dots> = ticking name (Suc n)" by (rule ticking_step)
  finally show ?case .
qed

text \<open>
  C1, as the code has it. What the user is shown during a research request is driven by
  a timer of the client: the form shows \<open>Initializing AI agents...\<close> when the request is
  sent, the \<open>k\<close>-th firing of its interval shows the \<open>k\<close>-th of six fixed strings, and
  from the sixth firing on the sixth stays. A firing of the interval exchanges
  nothing with the server.
\<close>

theorem progress_follows_timer:
  "(trim name \<noteq> [] \<longrightarrow>
     shown_progress (fstate (form_run (TypeCompany name # SubmitResearch # replicate n (IntervalFires 0))
                               ResearchForm_mount)) =
       Some (if n = 0 then ''Initializing AI agents...'' else simulateProgress ! (min n 6 - 1)))
   \<and> snd (ResearchForm_step (IntervalFires i) w) = []"
proof -
  have a: "snd (ResearchForm_step (IntervalFires i) w) = []"
    by (simp add: ResearchForm_interval_def)
  have b: "shown_progress (fstate (ticking name n)) =
       Some (if n = 0 then ''Initializing AI agents...'' else simulateProgress ! (min n 6 - 1))"
  proof (cases "n = 0")
    case True
    then show ?thesis by (simp add: ticking_def shown_progress_def)
  next
    case False
    then have "min n 6 - 1 < 6" by simp
    then have "simulateProgress ! (min n 6 - 1) \<noteq> []" by (rule simulateProgress_nonempty)
    then show ?thesis using False by (simp add: ticking_def shown_progress_def)
  qed
  have c: "trim name \<noteq> [] \<longrightarrow>
     shown_progress (fstate (form_run (TypeCompany name # SubmitResearch # replicate n (IntervalFires 0))
                               ResearchForm_mount)) =
       Some (if n = 0 then ''Initializing AI agents...'' else simulateProgress ! (min n 6 - 1))"
  proof
    assume "trim name \<noteq> []"
    then have "form_run (TypeCompany name # SubmitResearch # replicate n (IntervalFires 0)) ResearchForm_mount =
        ticking name n" by (rule run_ticking)
    then show "shown_progress (fstate (form_run (TypeCompany name # SubmitResearch # replicate n (IntervalFires 0))
                               ResearchForm_mount)) =
       Some (if n = 0 then ''Initializing AI agents...'' else simulateProgress ! (min n 6 - 1))"
      using b by (simp only:)
  qed
  from a c show ?thesis by (rule conjI [rotated])
qed

theorem progress_follows_timer_witness:
  "trim ''Acme'' \<noteq> []
   \<and> shown_progress (fstate (form_run [TypeCompany ''Acme'', SubmitResearch, IntervalFires 0, IntervalFires 0]
        ResearchForm_mount)) = Some ''Planning data collection strategy...''"
proof -
  have t: "trim ''Acme'' \<noteq> []" by (simp add: trim_def is_ws_def)
  have r: "replicate 2 (IntervalFires 0) = [IntervalFires 0, IntervalFires 0]"
    by (simp add: numeral_2_eq_2)
  from progress_follows_timer [of "''Acme''" 2] t
  have "shown_progress (fstate (form_run (TypeCompany ''Acme'' # SubmitResearch # replicate 2 (IntervalFires 0))
                               ResearchForm_mount)) = Some (simulateProgress ! (min 2 6 - 1))"
    by simp
  then show ?thesis using t by (simp only: r) (simp add: simulateProgress_def)
qed

text \<open>
  C1 as stated has no progress driven by a timer of the client. One firing of the
  interval, with the request unanswered and nothing received, replaces the string on
  screen.
\<close>

theorem progress_advances_without_pipeline:
  "shown_progress (fstate (form_run [TypeCompany ''Acme'', SubmitResearch] ResearchForm_mount)) =
     Some ''Initializing AI agents...''
   \<and> snd (ResearchForm_step (IntervalFires 0) (form_run [TypeCompany ''Acme'', SubmitResearch] ResearchForm_mount)) = []
   \<and> shown_progress (fstate (form_run [TypeCompany ''Acme'', SubmitResearch, IntervalFires 0] ResearchForm_mount)) =
     Some ''Searching for company data...''
   \<and> map stage (closures (form_run [TypeCompany ''Acme'', SubmitResearch, IntervalFires 0] ResearchForm_mount)) =
     [Awaiting]"
  by (simp add: ResearchForm_mount_def ResearchForm_init_def ResearchForm_handleSubmit_def
        ResearchForm_interval_def shown_progress_def simulateProgress_def trim_def is_ws_def)

subsection \<open>From the research response to the visualization\<close>

lemma research_round_trip:
  assumes "trim name \<noteq> []" "get_prop (data resp) ''viz_data'' = Inr v"
  shows "page_run [InForm 0 (TypeCompany name), InForm 0 SubmitResearch,
                   InForm 0 (ResearchFulfilled 0 resp), InForm 0 (TimeoutFires 0)] page_init =
         \<lparr>app = \<lparr>step = Chat, currentCompany = name, vizData = v\<rparr>,
          forms = [\<lparr>fstate = \<lparr>companyName = name, form_loading = False, error = JStr [],
                              progress = ''Research complete!''\<rparr>,
                    closures = [\<lparr>captured = name, currentStep = 0, progressInterval = False, stage = Settled\<rparr>]\<rparr>],
          chats = [ChatInterface_mount name],
          network = [Sent (request_of (researchCompany name)),
                     Fulfilled (request_of (researchCompany name)) resp],
          page_crashed = False\<rparr>"
  using assms
  by (simp add: page_init_def App_init_def ResearchForm_mount_def ResearchForm_init_def
        form_on_screen_def ResearchForm_handleSubmit_def ResearchForm_fulfilled_def
        ResearchForm_timeout_def handleResearchComplete_def researchCompany_def)

text \<open>
  C2, as the code has it. \<open>researchCompany\<close> returns the body of the response, and what
  \<open>handleSubmit\<close> passes on is the \<open>viz_data\<close> field of that body: after a research
  request for a name that is not blank has been fulfilled and its timeout has fired,
  App is in the chat step for that name with \<open>vizData\<close> the \<open>viz_data\<close> of the body, and
  that is the value Visualization is given (when it is truthy).
\<close>

theorem visualization_gets_viz_data:
  "trim name \<noteq> [] \<and> get_prop (data resp) ''viz_data'' = Inr v \<longrightarrow>
     resume (researchCompany name) resp = data resp
     \<and> app (page_run [InForm 0 (TypeCompany name), InForm 0 SubmitResearch,
                      InForm 0 (ResearchFulfilled 0 resp), InForm 0 (TimeoutFires 0)] page_init) =
         \<lparr>step = Chat, currentCompany = name, vizData = v\<rparr>
     \<and> App_visualization toUpperCase
         (app (page_run [InForm 0 (TypeCompany name), InForm 0 SubmitResearch,
                         InForm 0 (ResearchFulfilled 0 resp), InForm 0 (TimeoutFires 0)] page_init)) =
         (if truthy v then Visualization toUpperCase v name else Inr None)"
proof
  assume a: "trim name \<noteq> [] \<and> get_prop (data resp) ''viz_data'' = Inr v"
  then have a1: "trim name \<noteq> []" and a2: "get_prop (data resp) ''viz_data'' = Inr v"
    by simp_all
  have r: "page_run [InForm 0 (TypeCompany name), InForm 0 SubmitResearch,
                   InForm 0 (ResearchFulfilled 0 resp), InForm 0 (TimeoutFires 0)] page_init =
         \<lparr>app = \<lparr>step = Chat, currentCompany = name, vizData = v\<rparr>,
          forms = [\<lparr>fstate = \<lparr>companyName = name, form_loading = False, error = JStr [],
                              progress = ''Research complete!''\<rparr>,
                    closures = [\<lparr>captured = name, currentStep = 0, progressInterval = False, stage = Settled\<rparr>]\<rparr>],
          chats = [ChatInterface_mount name],
          network = [Sent (request_of (researchCompany name)),
                     Fulfilled (request_of (researchCompany name)) resp],
          page_crashed = False\<rparr>"
    by (rule research_round_trip [OF a1 a2])
  show "resume (researchCompany name) resp = data resp
     \<and> app (page_run [InForm 0 (TypeCompany name), InForm 0 SubmitResearch,
                      InForm 0 (ResearchFulfilled 0 resp), InForm 0 (TimeoutFires 0)] page_init) =
         \<lparr>step = Chat, currentCompany = name, vizData = v\<rparr>
     \<and> App_visualization toUpperCase
         (app (page_run [InForm 0 (TypeCompany name), InForm 0 SubmitResearch,
                         InForm 0 (ResearchFulfilled 0 resp), InForm 0 (TimeoutFires 0)] page_init)) =
         (if truthy v then Visualization toUpperCase v name else Inr None)"
    unfolding r by (simp add: researchCompany_def App_visualization_def)
qed

theorem visualization_gets_viz_data_witness:
  "trim ''Acme'' \<noteq> []
   \<and> app (page_run [InForm 0 (TypeCompany ''Acme''), InForm 0 SubmitResearch,
         InForm 0 (ResearchFulfilled 0
           \<lparr>status = 200,
            data = JObj [(''viz_data'', JObj [(''summary'', JStr ''Acme makes widgets.''),
                                              (''sources_breakdown'', JObj [(''web'', JNum 3), (''news'', JNum 2)]),
                                              (''total_sources'', JNum 5)])]\<rparr>),
         InForm 0 (TimeoutFires 0)] page_init) =
       \<lparr>step = Chat, currentCompany = ''Acme'',
        vizData = JObj [(''summary'', JStr ''Acme makes widgets.''),
                        (''sources_breakdown'', JObj [(''web'', JNum 3), (''news'', JNum 2)]),
                        (''total_sources'', JNum 5)]\<rparr>"
proof -
  let ?viz = "JObj [(''summary'', JStr ''Acme makes widgets.''),
                    (''sources_breakdown'', JObj [(''web'', JNum 3), (''news'', JNum 2)]),
                    (''total_sources'', JNum 5)]"
  have t: "trim ''Acme'' \<noteq> []" by (simp add: trim_def is_ws_def)
  have g: "get_prop (data \<lparr>status = 200, data = JObj [(''viz_data'', ?viz)]\<rparr>) ''viz_data'' = Inr ?viz"
    by simp
  from visualization_gets_viz_data [of "''Acme''" "\<lparr>status = 200, data = JObj [(''viz_data'', ?viz)]\<rparr>" ?viz toUpperCase_ascii]
    t g
  show ?thesis by blast
qed

text \<open>
  C2 as stated has the body itself carry \<open>summary\<close>, \<open>sources_breakdown\<close> and
  \<open>total_sources\<close> at its top level. Of such a body the client passes on \<open>undefined\<close>,
  and no visualization is rendered.
\<close>

theorem top_level_record_is_not_rendered:
  "resume (researchCompany ''Acme'')
     \<lparr>status = 200,
      data = JObj [(''summary'', JStr ''Acme makes widgets.''),
                   (''sources_breakdown'', JObj [(''web'', JNum 3), (''news'', JNum 2)]),
                   (''total_sources'', JNum 5)]\<rparr> =
     JObj [(''summary'', JStr ''Acme makes widgets.''),
           (''sources_breakdown'', JObj [(''web'', JNum 3), (''news'', JNum 2)]),
           (''total_sources'', JNum 5)]
   \<and> app (page_run [InForm 0 (TypeCompany ''Acme''), InForm 0 SubmitResearch,
         InForm 0 (ResearchFulfilled 0
           \<lparr>status = 200,
            data = JObj [(''summary'', JStr ''Acme makes widgets.''),
                         (''sources_breakdown'', JObj [(''web'', JNum 3), (''news'', JNum 2)]),
                         (''total_sources'', JNum 5)]\<rparr>),
         InForm 0 (TimeoutFires 0)] page_init) =
       \<lparr>step = Chat, currentCompany = ''Acme'', vizData = JUndefined\<rparr>
   \<and> App_visualization toUpperCase_ascii
       (app (page_run [InForm 0 (TypeCompany ''Acme''), InForm 0 SubmitResearch,
         InForm 0 (ResearchFulfilled 0
           \<lparr>status = 200,
            data = JObj [(''summary'', JStr ''Acme makes widgets.''),
                         (''sources_breakdown'', JObj [(''web'', JNum 3), (''news'', JNum 2)]),
                         (''total_sources'', JNum 5)]\<rparr>),
         InForm 0 (TimeoutFires 0)] page_init)) = Inr None"
proof -
  let ?body = "JObj [(''summary'', JStr ''Acme makes widgets.''),
                   (''sources_breakdown'', JObj [(''web'', JNum 3), (''news'', JNum 2)]),
                   (''total_sources'', JNum 5)]"
  have t: "trim ''Acme'' \<noteq> []" by (simp add: trim_def is_ws_def)
  have g: "get_prop (data \<lparr>status = 200, data = ?body\<rparr>) ''viz_data'' = Inr JUndefined" by simp
  note r = research_round_trip [OF t g]
  show ?thesis unfolding r by (simp add: researchCompany_def App_visualization_def)
qed

subsection \<open>The page: research before chat\<close>

lemma researched_append: "researched log c \<Longrightarrow> researched (log @ later) c"
  by (simp add: researched_def)

lemma researched_fulfilled: "researched (log @ [Fulfilled (request_of (researchCompany c)) resp]) c"
  by (simp add: researched_def)

lemma closure_ok_append: "closure_ok log c \<Longrightarrow> closure_ok (log @ later) c"
  by (cases "stage c") (simp_all add: researched_append)

lemma closures_ok_append: "closures_ok log w \<Longrightarrow> closures_ok (log @ later) w"
  by (simp add: closures_ok_def list_all_iff closure_ok_append del: closure_ok.simps)

lemma list_all_update: "list_all P xs \<Longrightarrow> P x \<Longrightarrow> list_all P (xs[i := x])"
  by (induction xs arbitrary: i) (auto split: nat.splits)

lemma list_all_nth: "list_all P xs \<Longrightarrow> i < length xs \<Longrightarrow> P (xs ! i)"
  by (simp add: list_all_length)

text \<open>The effects of one step of a form.\<close>

lemma form_step_effects:
  "snd (ResearchForm_step e w) = [] \<or> (\<exists>n. snd (ResearchForm_step e w) = [Net n])
   \<or> (\<exists>c v. snd (ResearchForm_step e w) = [OnResearchComplete c v])"
  by (cases e)
     (auto simp: ResearchForm_handleSubmit_def ResearchForm_interval_def ResearchForm_fulfilled_def
        ResearchForm_catch_def ResearchForm_timeout_def Let_def split: phase.splits sum.splits)

lemma form_step_sent:
  "Net (Sent r) \<in> set (snd (ResearchForm_step e w)) \<Longrightarrow> \<exists>x. r = request_of (researchCompany x)"
  by (cases e)
     (auto simp: ResearchForm_handleSubmit_def ResearchForm_interval_def ResearchForm_fulfilled_def
        ResearchForm_catch_def ResearchForm_timeout_def Let_def split: phase.splits sum.splits if_splits)

lemma form_step_complete:
  "OnResearchComplete c v \<in> set (snd (ResearchForm_step e w)) \<Longrightarrow>
   \<exists>j r. e = TimeoutFires j \<and> j < length (closures w) \<and> stage (closures w ! j) = Scheduled r
         \<and> captured (closures w ! j) = c"
  by (cases e)
     (auto simp: ResearchForm_handleSubmit_def ResearchForm_interval_def ResearchForm_fulfilled_def
        ResearchForm_catch_def ResearchForm_timeout_def Let_def split: phase.splits sum.splits if_splits)

lemma form_step_closures_ok:
  assumes "closures_ok log w"
  shows "closures_ok (log @ net_of (snd (ResearchForm_step e w))) (fst (ResearchForm_step e w))"
proof (cases e)
  case (TypeCompany v)
  then show ?thesis using assms by (simp add: closures_ok_def)
next
  case SubmitResearch
  then show ?thesis using closures_ok_append [OF assms] assms
    by (auto simp: closures_ok_def ResearchForm_handleSubmit_def)
next
  case (IntervalFires i)
  then show ?thesis using assms list_all_nth [of "closure_ok log" "closures w" i]
    by (auto simp: closures_ok_def ResearchForm_interval_def intro!: list_all_update split: phase.splits)
next
  case (ResearchFulfilled i resp)
  then show ?thesis using closures_ok_append [OF assms] assms
    by (auto simp: closures_ok_def ResearchForm_fulfilled_def researched_fulfilled Let_def
          intro!: list_all_update)
next
  case (ResearchRejected i err)
  then show ?thesis using closures_ok_append [OF assms] assms
    by (auto simp: closures_ok_def ResearchForm_catch_def Let_def intro!: list_all_update)
next
  case (TimeoutFires i)
  then show ?thesis using assms
    by (auto simp: closures_ok_def ResearchForm_timeout_def intro!: list_all_update
          split: phase.splits sum.splits)
qed


lemma chats_after_research_snoc:
  assumes "chats_after_research log"
    and "\<And>c q. n = Sent (request_of (sendChatMessage c q)) \<Longrightarrow> researched log c"
  shows "chats_after_research (log @ [n])"
  unfolding chats_after_research_def
proof (intro allI impI)
  fix i c q
  assume h: "i < length (log @ [n]) \<and> (log @ [n]) ! i = Sent (request_of (sendChatMessage c q))"
  show "researched (take i (log @ [n])) c"
  proof (cases "i < length log")
    case True
    then have "log ! i = Sent (request_of (sendChatMessage c q))" using h by (simp add: nth_append)
    then have "researched (take i log) c"
      using assms(1) True unfolding chats_after_research_def by blast
    then show ?thesis using True by simp
  next
    case False
    then have i: "i = length log" using h by simp
    then have "n = Sent (request_of (sendChatMessage c q))" using h by simp
    then have "researched log c" by (rule assms(2))
    then show ?thesis using i by simp
  qed
qed

lemma research_not_chat: "request_of (researchCompany x) \<noteq> request_of (sendChatMessage c q)"
  by (simp add: researchCompany_def sendChatMessage_def)

lemma chat_step_traffic:
  "snd (ChatInterface_step company e w) = []
   \<or> (\<exists>t. e = SubmitChat \<and> snd (ChatInterface_step company e w) = [Sent (request_of (sendChatMessage company t))])
   \<or> (\<exists>r resp. snd (ChatInterface_step company e w) = [Fulfilled r resp])
   \<or> (\<exists>r err. snd (ChatInterface_step company e w) = [Failed r err])"
  by (cases e) (auto simp: ChatInterface_handleSubmit_def Let_def split: sum.splits)

lemma page_step_InForm:
  "page_step (InForm i e) p =
     (if i < length (forms p) \<and> (if user_form_event e then form_on_screen p i else True)
      then deliver (snd (ResearchForm_step e (forms p ! i)))
             (p\<lparr>forms := (forms p)[i := fst (ResearchForm_step e (forms p ! i))],
                network := network p @ net_of (snd (ResearchForm_step e (forms p ! i)))\<rparr>)
      else p)"
  by (simp add: case_prod_beta)

lemma page_step_InChat:
  "page_step (InChat i e) p =
     (if i < length (chats p) \<and> (if user_chat_event e then chat_on_screen p i else True)
      then p\<lparr>chats := (chats p)[i := fst (ChatInterface_step (currentCompany (app p)) e (chats p ! i))],
             network := network p @ snd (ChatInterface_step (currentCompany (app p)) e (chats p ! i)),
             page_crashed := (page_crashed p \<or> chat_on_screen p i \<and>
                                crashed (fst (ChatInterface_step (currentCompany (app p)) e (chats p ! i))))\<rparr>
      else p)"
  by (simp add: case_prod_beta)

lemma page_inv_form:
  assumes inv: "page_inv p" and i: "i < length (forms p)"
  shows "page_inv (deliver (snd (ResearchForm_step e (forms p ! i)))
             (p\<lparr>forms := (forms p)[i := fst (ResearchForm_step e (forms p ! i))],
                network := network p @ net_of (snd (ResearchForm_step e (forms p ! i)))\<rparr>))"
proof -
  let ?w = "fst (ResearchForm_step e (forms p ! i))"
  let ?effs = "snd (ResearchForm_step e (forms p ! i))"
  from inv have a: "step (app p) = Chat \<longrightarrow> researched (network p) (currentCompany (app p))"
    and b: "list_all (closures_ok (network p)) (forms p)"
    and c: "chats_after_research (network p)"
    by (simp_all add: page_inv_def)
  from b i have wi: "closures_ok (network p) (forms p ! i)" by (rule list_all_nth)
  then have w': "closures_ok (network p @ net_of ?effs) ?w" by (rule form_step_closures_ok)
  have b0: "list_all (closures_ok (network p @ net_of ?effs)) (forms p)"
    using b by (simp add: list_all_iff closures_ok_append)
  have b': "list_all (closures_ok (network p @ net_of ?effs)) ((forms p)[i := ?w])"
    using b0 w' by (rule list_all_update)
  consider (none) "?effs = []" | (net) n where "?effs = [Net n]"
    | (complete) x v where "?effs = [OnResearchComplete x v]"
    using form_step_effects [of e "forms p ! i"] by blast
  then show ?thesis
  proof cases
    case none
    then show ?thesis using a b' c by (simp add: page_inv_def)
  next
    case (net n)
    have "chats_after_research (network p @ [n])"
    proof (rule chats_after_research_snoc [OF c])
      fix x q
      assume "n = Sent (request_of (sendChatMessage x q))"
      then have "Net (Sent (request_of (sendChatMessage x q))) \<in> set ?effs" using net by simp
      then obtain y where "request_of (sendChatMessage x q) = request_of (researchCompany y)"
        using form_step_sent by blast
      then show "researched (network p) x" using research_not_chat [of y x q] by simp
    qed
    then show ?thesis using a b' net by (simp add: page_inv_def researched_append)
  next
    case (complete x v)
    then have "OnResearchComplete x v \<in> set ?effs" by simp
    then obtain j r where j: "j < length (closures (forms p ! i))"
      "stage (closures (forms p ! i) ! j) = Scheduled r" "captured (closures (forms p ! i) ! j) = x"
      using form_step_complete by blast
    from wi j(1) have "closure_ok (network p) (closures (forms p ! i) ! j)"
      unfolding closures_ok_def by (rule list_all_nth)
    then have "researched (network p) x" using j by simp
    then show ?thesis using a b' c complete
      by (simp add: page_inv_def handleResearchComplete_def)
  qed
qed

lemma page_inv_chat:
  assumes inv: "page_inv p"
    and ok: "if user_chat_event e then chat_on_screen p i else True"
  shows "page_inv (p\<lparr>chats := cs,
             network := network p @ snd (ChatInterface_step (currentCompany (app p)) e w),
             page_crashed := down\<rparr>)"
proof -
  let ?t = "snd (ChatInterface_step (currentCompany (app p)) e w)"
  from inv have a: "step (app p) = Chat \<longrightarrow> researched (network p) (currentCompany (app p))"
    and b: "list_all (closures_ok (network p)) (forms p)"
    and c: "chats_after_research (network p)"
    by (simp_all add: page_inv_def)
  have b': "list_all (closures_ok (network p @ ?t)) (forms p)"
    using b by (simp add: list_all_iff closures_ok_append)
  consider (none) "?t = []"
    | (sent) t where "e = SubmitChat" "?t = [Sent (request_of (sendChatMessage (currentCompany (app p)) t))]"
    | (fulfilled) r resp where "?t = [Fulfilled r resp]"
    | (failed) r err where "?t = [Failed r err]"
    using chat_step_traffic [of "currentCompany (app p)" e w] by blast
  then show ?thesis
  proof cases
    case none
    then show ?thesis using inv by (simp add: page_inv_def)
  next
    case (sent t)
    then have "step (app p) = Chat" using ok by (simp add: chat_on_screen_def)
    then have r: "researched (network p) (currentCompany (app p))" using a by simp
    have "chats_after_research (network p @ ?t)"
      unfolding sent(2)
    proof (rule chats_after_research_snoc [OF c])
      fix x q
      assume "Sent (request_of (sendChatMessage (currentCompany (app p)) t)) = Sent (request_of (sendChatMessage x q))"
      then have "x = currentCompany (app p)" by (simp add: sendChatMessage_def)
      then show "researched (network p) x" using r by simp
    qed
    then show ?thesis using a b' by (simp add: page_inv_def researched_append)
  next
    case (fulfilled r resp)
    have "chats_after_research (network p @ [Fulfilled r resp])"
      by (rule chats_after_research_snoc [OF c]) simp
    then show ?thesis using a b' fulfilled by (simp add: page_inv_def researched_append)
  next
    case (failed r err)
    have "chats_after_research (network p @ [Failed r err])"
      by (rule chats_after_research_snoc [OF c]) simp
    then show ?thesis using a b' failed by (simp add: page_inv_def researched_append)
  qed
qed

lemma page_inv_init: "page_inv page_init"
  by (simp add: page_inv_def page_init_def App_init_def ResearchForm_mount_def closures_ok_def
        chats_after_research_def)

lemma page_inv_step: "page_inv p \<Longrightarrow> page_inv (page_step e p)"
proof (cases e)
  case (InForm i fe)
  assume "page_inv p"
  then show ?thesis unfolding InForm page_step_InForm by (simp add: page_inv_form)
next
  case (InChat i ce)
  assume inv: "page_inv p"
  define g where "g = (i < length (chats p) \<and> (if user_chat_event ce then chat_on_screen p i else True))"
  have ps: "page_step (InChat i ce) p =
     (if g then p\<lparr>chats := (chats p)[i := fst (ChatInterface_step (currentCompany (app p)) ce (chats p ! i))],
                  network := network p @ snd (ChatInterface_step (currentCompany (app p)) ce (chats p ! i)),
                  page_crashed := (page_crashed p \<or> chat_on_screen p i \<and>
                                     crashed (fst (ChatInterface_step (currentCompany (app p)) ce (chats p ! i))))\<rparr>
      else p)"
    unfolding g_def by (rule page_step_InChat)
  show ?thesis
  proof (cases g)
    case True
    then have ok: "if user_chat_event ce then chat_on_screen p i else True" by (simp add: g_def)
    show ?thesis unfolding InChat ps using True page_inv_chat [OF inv ok] by simp
  next
    case False
    then show ?thesis unfolding InChat ps using inv by simp
  qed
next
  case ClickNewResearch
  assume "page_inv p"
  then show ?thesis using ClickNewResearch
    by (auto simp: page_inv_def handleStartNew_def ResearchForm_mount_def closures_ok_def)
qed

lemma page_inv_run: "page_inv p \<Longrightarrow> page_inv (page_run evs p)"
  by (induction evs arbitrary: p) (simp_all add: page_inv_step)


lemma enters_chat:
  assumes "step (app p) = Research" "step (app (page_step e p)) = Chat"
  shows "\<exists>k j r. e = InForm k (TimeoutFires j) \<and> k < length (forms p) \<and>
           j < length (closures (forms p ! k)) \<and> stage (closures (forms p ! k) ! j) = Scheduled r"
proof (cases e)
  case (InForm k fe)
  let ?effs = "snd (ResearchForm_step fe (forms p ! k))"
  define g where "g = (k < length (forms p) \<and> (if user_form_event fe then form_on_screen p k else True))"
  have ps: "page_step (InForm k fe) p =
     (if g then deliver ?effs
             (p\<lparr>forms := (forms p)[k := fst (ResearchForm_step fe (forms p ! k))],
                network := network p @ net_of ?effs\<rparr>)
      else p)"
    unfolding g_def by (rule page_step_InForm)
  have g: g using assms ps InForm by (cases g) simp_all
  then have k: "k < length (forms p)" by (simp add: g_def)
  consider (none) "?effs = []" | (net) n where "?effs = [Net n]"
    | (complete) x v where "?effs = [OnResearchComplete x v]"
    using form_step_effects [of fe "forms p ! k"] by blast
  then show ?thesis
  proof cases
    case none
    then show ?thesis using assms ps InForm g by simp
  next
    case (net n)
    then show ?thesis using assms ps InForm g by simp
  next
    case (complete x v)
    then have "OnResearchComplete x v \<in> set ?effs" by simp
    then obtain j r where "fe = TimeoutFires j" "j < length (closures (forms p ! k))"
      "stage (closures (forms p ! k) ! j) = Scheduled r"
      using form_step_complete by blast
    then show ?thesis using InForm k by blast
  qed
next
  case (InChat k ce)
  have "app (page_step (InChat k ce) p) = app p"
    unfolding page_step_InChat by simp
  then show ?thesis using assms InChat by simp
next
  case ClickNewResearch
  then show ?thesis using assms by (simp add: handleStartNew_def split: if_splits)
qed

lemma failed_research:
  "app (page_step (InForm k (ResearchRejected j err)) p) = app p
   \<and> chats (page_step (InForm k (ResearchRejected j err)) p) = chats p
   \<and> (network (page_step (InForm k (ResearchRejected j err)) p) = network p
      \<or> (\<exists>x. network (page_step (InForm k (ResearchRejected j err)) p) =
               network p @ [Failed (request_of (researchCompany x)) err]))"
  by (auto simp: ResearchForm_catch_def Let_def)

text \<open>
  C6. In the traffic of every run of the page, a chat request for a company comes after
  the fulfilment of a research request for that same company, and while the page is in
  the chat step its current company has been researched. The only step that takes the
  page from the research step to the chat step is the timeout callback of a
  \<open>handleSubmit\<close> whose request was fulfilled. A rejected research request changes
  neither App's state (in the research step it stays there) nor any chat component,
  and adds nothing to the traffic but its own failure.
\<close>

theorem chat_only_after_research:
  "(i < length (network (page_run evs page_init))
      \<and> network (page_run evs page_init) ! i = Sent (request_of (sendChatMessage company q)) \<longrightarrow>
      researched (take i (network (page_run evs page_init))) company)
   \<and> (step (app (page_run evs page_init)) = Chat \<longrightarrow>
        researched (network (page_run evs page_init)) (currentCompany (app (page_run evs page_init))))
   \<and> (step (app p) = Research \<and> step (app (page_step e p)) = Chat \<longrightarrow>
        (\<exists>k j r. e = InForm k (TimeoutFires j) \<and> k < length (forms p) \<and>
           j < length (closures (forms p ! k)) \<and> stage (closures (forms p ! k) ! j) = Scheduled r))
   \<and> app (page_step (InForm k (ResearchRejected j err)) p) = app p
   \<and> chats (page_step (InForm k (ResearchRejected j err)) p) = chats p
   \<and> (network (page_step (InForm k (ResearchRejected j err)) p) = network p
      \<or> (\<exists>x. network (page_step (InForm k (ResearchRejected j err)) p) =
               network p @ [Failed (request_of (researchCompany x)) err]))"
proof -
  have inv: "page_inv (page_run evs page_init)" by (rule page_inv_run [OF page_inv_init])
  then have a: "i < length (network (page_run evs page_init))
      \<and> network (page_run evs page_init) ! i = Sent (request_of (sendChatMessage company q)) \<longrightarrow>
      researched (take i (network (page_run evs page_init))) company"
    unfolding page_inv_def chats_after_research_def by blast
  have b: "step (app (page_run evs page_init)) = Chat \<longrightarrow>
        researched (network (page_run evs page_init)) (currentCompany (app (page_run evs page_init)))"
    using inv unfolding page_inv_def by blast
  have c: "step (app p) = Research \<and> step (app (page_step e p)) = Chat \<longrightarrow>
        (\<exists>k j r. e = InForm k (TimeoutFires j) \<and> k < length (forms p) \<and>
           j < length (closures (forms p ! k)) \<and> stage (closures (forms p ! k) ! j) = Scheduled r)"
    using enters_chat by blast
  from a b c failed_research [of k j err p] show ?thesis by blast
qed

lemma research_then_chat:
  "page_run [InForm 0 (TypeCompany ''Acme''), InForm 0 SubmitResearch,
             InForm 0 (ResearchFulfilled 0 \<lparr>status = 200, data = JObj [(''viz_data'', JNull)]\<rparr>),
             InForm 0 (TimeoutFires 0),
             InChat 0 (TypeInput ''hi''), InChat 0 SubmitChat] page_init =
   \<lparr>app = \<lparr>step = Chat, currentCompany = ''Acme'', vizData = JNull\<rparr>,
    forms = [\<lparr>fstate = \<lparr>companyName = ''Acme'', form_loading = False, error = JStr [],
                        progress = ''Research complete!''\<rparr>,
              closures = [\<lparr>captured = ''Acme'', currentStep = 0, progressInterval = False, stage = Settled\<rparr>]\<rparr>],
    chats = [\<lparr>cstate = \<lparr>messages = [\<lparr>role = Assistant, content = JStr (greeting ''Acme'')\<rparr>,
                                      \<lparr>role = User, content = JStr ''hi''\<rparr>],
                          input = [], loading = True\<rparr>,
              inflight = [sendChatMessage ''Acme'' ''hi''], crashed = False\<rparr>],
    network = [Sent (request_of (researchCompany ''Acme'')),
               Fulfilled (request_of (researchCompany ''Acme'')) \<lparr>status = 200, data = JObj [(''viz_data'', JNull)]\<rparr>,
               Sent (request_of (sendChatMessage ''Acme'' ''hi''))],
    page_crashed = False\<rparr>"
proof -
  let ?resp = "\<lparr>status = 200, data = JObj [(''viz_data'', JNull)]\<rparr>"
  have t: "trim ''Acme'' \<noteq> []" by (simp add: trim_def is_ws_def)
  have g: "get_prop (data ?resp) ''viz_data'' = Inr JNull"
    by simp
  note r4 = research_round_trip [OF t g]
  have th: "trim ''hi'' = ''hi''" by (simp add: trim_def is_ws_def)
  have "page_run [InForm 0 (TypeCompany ''Acme''), InForm 0 SubmitResearch,
             InForm 0 (ResearchFulfilled 0 ?resp), InForm 0 (TimeoutFires 0),
             InChat 0 (TypeInput ''hi''), InChat 0 SubmitChat] page_init =
        page_run [InChat 0 (TypeInput ''hi''), InChat 0 SubmitChat]
          (page_run [InForm 0 (TypeCompany ''Acme''), InForm 0 SubmitResearch,
             InForm 0 (ResearchFulfilled 0 ?resp), InForm 0 (TimeoutFires 0)] page_init)"
    by (simp only: page_run.simps)
  also have "\<dots> = page_run [InChat 0 (TypeInput ''hi''), InChat 0 SubmitChat]
       \<lparr>app = \<lparr>step = Chat, currentCompany = ''Acme'', vizData = JNull\<rparr>,
          forms = [\<lparr>fstate = \<lparr>companyName = ''Acme'', form_loading = False, error = JStr [],
                              progress = ''Research complete!''\<rparr>,
                    closures = [\<lparr>captured = ''Acme'', currentStep = 0, progressInterval = False, stage = Settled\<rparr>]\<rparr>],
          chats = [ChatInterface_mount ''Acme''],
          network = [Sent (request_of (researchCompany ''Acme'')),
                     Fulfilled (request_of (researchCompany ''Acme'')) ?resp],
          page_crashed = False\<rparr>"
    by (simp only: r4)
  also have "\<dots> = \<lparr>app = \<lparr>step = Chat, currentCompany = ''Acme'', vizData = JNull\<rparr>,
    forms = [\<lparr>fstate = \<lparr>companyName = ''Acme'', form_loading = False, error = JStr [],
                        progress = ''Research complete!''\<rparr>,
              closures = [\<lparr>captured = ''Acme'', currentStep = 0, progressInterval = False, stage = Settled\<rparr>]\<rparr>],
    chats = [\<lparr>cstate = \<lparr>messages = [\<lparr>role = Assistant, content = JStr (greeting ''Acme'')\<rparr>,
                                      \<lparr>role = User, content = JStr ''hi''\<rparr>],
                          input = [], loading = True\<rparr>,
              inflight = [sendChatMessage ''Acme'' ''hi''], crashed = False\<rparr>],
    network = [Sent (request_of (researchCompany ''Acme'')),
               Fulfilled (request_of (researchCompany ''Acme'')) ?resp,
               Sent (request_of (sendChatMessage ''Acme'' ''hi''))],
    page_crashed = False\<rparr>"
    by (simp add: chat_on_screen_def ChatInterface_mount_def ChatInterface_init_def
          ChatInterface_handleSubmit_def th Let_def)
  finally show ?thesis .
qed


theorem chat_only_after_research_witness:
  "network (page_run [InForm 0 (TypeCompany ''Acme''), InForm 0 SubmitResearch,
             InForm 0 (ResearchFulfilled 0 \<lparr>status = 200, data = JObj [(''viz_data'', JNull)]\<rparr>),
             InForm 0 (TimeoutFires 0),
             InChat 0 (TypeInput ''hi''), InChat 0 SubmitChat] page_init) ! 2 =
     Sent (request_of (sendChatMessage ''Acme'' ''hi''))
   \<and> researched (take 2 (network (page_run [InForm 0 (TypeCompany ''Acme''), InForm 0 SubmitResearch,
             InForm 0 (ResearchFulfilled 0 \<lparr>status = 200, data = JObj [(''viz_data'', JNull)]\<rparr>),
             InForm 0 (TimeoutFires 0),
             InChat 0 (TypeInput ''hi''), InChat 0 SubmitChat] page_init))) ''Acme''"
proof -
  let ?evs = "[InForm 0 (TypeCompany ''Acme''), InForm 0 SubmitResearch,
             InForm 0 (ResearchFulfilled 0 \<lparr>status = 200, data = JObj [(''viz_data'', JNull)]\<rparr>),
             InForm 0 (TimeoutFires 0),
             InChat 0 (TypeInput ''hi''), InChat 0 SubmitChat]"
  have l: "2 < length (network (page_run ?evs page_init))" unfolding research_then_chat by simp
  have n: "network (page_run ?evs page_init) ! 2 = Sent (request_of (sendChatMessage ''Acme'' ''hi''))"
    unfolding research_then_chat by simp
  have "researched (take 2 (network (page_run ?evs page_init))) ''Acme''"
    by (rule mp [OF conjunct1 [OF chat_only_after_research [of 2 ?evs "''Acme''" "''hi''"]] conjI [OF l n]])
  with n show ?thesis by (rule conjI)
qed

text \<open>
  Of the functions of api.js the page calls \<open>researchCompany\<close> and \<open>sendChatMessage\<close> and
  no other: everything it sends is a POST. New Research clears the page's own state and
  sends nothing.
\<close>

lemma deliver_network: "network (deliver effs p) = network p"
  by (induction effs p rule: deliver.induct) simp_all

lemma net_of_sent: "Sent r \<in> set (net_of effs) \<Longrightarrow> Net (Sent r) \<in> set effs"
  by (induction effs rule: net_of.induct) auto

lemma page_step_traffic:
  "\<exists>t. network (page_step e p) = network p @ t \<and> (\<forall>r. Sent r \<in> set t \<longrightarrow> verb r = POST)"
proof (cases e)
  case (InForm i fe)
  let ?effs = "snd (ResearchForm_step fe (forms p ! i))"
  have post: "\<forall>r. Sent r \<in> set (net_of ?effs) \<longrightarrow> verb r = POST"
  proof (intro allI impI)
    fix r
    assume "Sent r \<in> set (net_of ?effs)"
    then have "Net (Sent r) \<in> set ?effs" by (rule net_of_sent)
    then obtain x where "r = request_of (researchCompany x)" using form_step_sent by blast
    then show "verb r = POST" by (simp add: researchCompany_def)
  qed
  define g where "g = (i < length (forms p) \<and> (if user_form_event fe then form_on_screen p i else True))"
  have ps: "page_step (InForm i fe) p =
     (if g then deliver ?effs
             (p\<lparr>forms := (forms p)[i := fst (ResearchForm_step fe (forms p ! i))],
                network := network p @ net_of ?effs\<rparr>)
      else p)"
    unfolding g_def by (rule page_step_InForm)
  show ?thesis
  proof (cases g)
    case True
    then have "network (page_step (InForm i fe) p) = network p @ net_of ?effs"
      unfolding ps by (simp add: deliver_network)
    then show ?thesis using post InForm by blast
  next
    case False
    then have "network (page_step (InForm i fe) p) = network p @ []"
      unfolding ps by simp
    then show ?thesis using InForm by (intro exI [of _ "[]"]) simp
  qed
next
  case (InChat i ce)
  let ?t = "snd (ChatInterface_step (currentCompany (app p)) ce (chats p ! i))"
  have post: "\<forall>r. Sent r \<in> set ?t \<longrightarrow> verb r = POST"
    using chat_step_traffic [of "currentCompany (app p)" ce "chats p ! i"]
    by (auto simp: sendChatMessage_def)
  define g where "g = (i < length (chats p) \<and> (if user_chat_event ce then chat_on_screen p i else True))"
  have ps: "page_step (InChat i ce) p =
     (if g then p\<lparr>chats := (chats p)[i := fst (ChatInterface_step (currentCompany (app p)) ce (chats p ! i))],
                  network := network p @ ?t,
                  page_crashed := (page_crashed p \<or> chat_on_screen p i \<and>
                                     crashed (fst (ChatInterface_step (currentCompany (app p)) ce (chats p ! i))))\<rparr>
      else p)"
    unfolding g_def by (rule page_step_InChat)
  show ?thesis
  proof (cases g)
    case True
    then have "network (page_step (InChat i ce) p) = network p @ ?t"
      unfolding ps by simp
    then show ?thesis using post InChat by blast
  next
    case False
    then have "network (page_step (InChat i ce) p) = network p @ []"
      unfolding ps by simp
    then show ?thesis using InChat by (intro exI [of _ "[]"]) simp
  qed
next
  case ClickNewResearch
  then show ?thesis by (intro exI [of _ "[]"]) simp
qed

lemma page_run_posts:
  "(\<forall>r. Sent r \<in> set (network p) \<longrightarrow> verb r = POST) \<Longrightarrow>
   (\<forall>r. Sent r \<in> set (network (page_run evs p)) \<longrightarrow> verb r = POST)"
proof (induction evs arbitrary: p)
  case Nil
  then show ?case by simp
next
  case (Cons e evs)
  obtain t where "network (page_step e p) = network p @ t" "\<forall>r. Sent r \<in> set t \<longrightarrow> verb r = POST"
    using page_step_traffic by blast
  then have "\<forall>r. Sent r \<in> set (network (page_step e p)) \<longrightarrow> verb r = POST"
    using Cons.prems by auto
  from Cons.IH [OF this] show ?case by simp
qed

lemma page_sends_posts_only:
  "Sent r \<in> set (network (page_run evs page_init)) \<Longrightarrow> verb r = POST"
  using page_run_posts [of page_init evs] by (simp add: page_init_def)

text \<open>
  C9 as stated has at most one chat request in flight at a time, and no request sent
  while an earlier one is in flight. The guard is per component, and nothing cancels
  the call of a component that is unmounted: with a first chat request unanswered, the
  user starts a new research, and the chat that is mounted after it sends a second
  request.
\<close>

theorem two_chat_requests_in_flight:
  "network (page_run
      [InForm 0 (TypeCompany ''Acme''), InForm 0 SubmitResearch,
       InForm 0 (ResearchFulfilled 0 \<lparr>status = 200, data = JObj [(''viz_data'', JNull)]\<rparr>),
       InForm 0 (TimeoutFires 0),
       InChat 0 (TypeInput ''hi''), InChat 0 SubmitChat,
       ClickNewResearch,
       InForm 1 (TypeCompany ''Acme''), InForm 1 SubmitResearch,
       InForm 1 (ResearchFulfilled 0 \<lparr>status = 200, data = JObj [(''viz_data'', JNull)]\<rparr>),
       InForm 1 (TimeoutFires 0),
       InChat 1 (TypeInput ''again''), InChat 1 SubmitChat] page_init) =
     [Sent (request_of (researchCompany ''Acme'')),
      Fulfilled (request_of (researchCompany ''Acme'')) \<lparr>status = 200, data = JObj [(''viz_data'', JNull)]\<rparr>,
      Sent (request_of (sendChatMessage ''Acme'' ''hi'')),
      Sent (request_of (researchCompany ''Acme'')),
      Fulfilled (request_of (researchCompany ''Acme'')) \<lparr>status = 200, data = JObj [(''viz_data'', JNull)]\<rparr>,
      Sent (request_of (sendChatMessage ''Acme'' ''again''))]
   \<and> map request_of (inflight (chats (page_run
      [InForm 0 (TypeCompany ''Acme''), InForm 0 SubmitResearch,
       InForm 0 (ResearchFulfilled 0 \<lparr>status = 200, data = JObj [(''viz_data'', JNull)]\<rparr>),
       InForm 0 (TimeoutFires 0),
       InChat 0 (TypeInput ''hi''), InChat 0 SubmitChat,
       ClickNewResearch,
       InForm 1 (TypeCompany ''Acme''), InForm 1 SubmitResearch,
       InForm 1 (ResearchFulfilled 0 \<lparr>status = 200, data = JObj [(''viz_data'', JNull)]\<rparr>),
       InForm 1 (TimeoutFires 0),
       InChat 1 (TypeInput ''again''), InChat 1 SubmitChat] page_init) ! 0)) =
     [request_of (sendChatMessage ''Acme'' ''hi'')]
   \<and> map request_of (inflight (chats (page_run
      [InForm 0 (TypeCompany ''Acme''), InForm 0 SubmitResearch,
       InForm 0 (ResearchFulfilled 0 \<lparr>status = 200, data = JObj [(''viz_data'', JNull)]\<rparr>),
       InForm 0 (TimeoutFires 0),
       InChat 0 (TypeInput ''hi''), InChat 0 SubmitChat,
       ClickNewResearch,
       InForm 1 (TypeCompany ''Acme''), InForm 1 SubmitResearch,
       InForm 1 (ResearchFulfilled 0 \<lparr>status = 200, data = JObj [(''viz_data'', JNull)]\<rparr>),
       InForm 1 (TimeoutFires 0),
       InChat 1 (TypeInput ''again''), InChat 1 SubmitChat] page_init) ! 1)) =
     [request_of (sendChatMessage ''Acme'' ''again'')]"
  by code_simp

subsection \<open>The vector store: one namespace per company\<close>

lemma upsert_set: "(k', d') \<in> set (upsert k d coll) \<Longrightarrow> d' = d \<or> (k', d') \<in> set coll"
  by (induction coll) (auto split: if_splits)

lemma index_one_owner:
  assumes "list_all (\<lambda>d. company_id d = company) (map snd (fst acc))"
  shows "list_all (\<lambda>d. company_id d = company) (map snd (fst (index_one embed_text company c acc)))"
proof (cases "embed_text (cleaned_text c)")
  case None
  then show ?thesis using assms by (simp add: index_one_def)
next
  case (Some v)
  let ?doc = "\<lparr>doc_id = dedup_key c, company_id = company, doc_source = source c,
               doc_text = cleaned_text c, embedding = v\<rparr>"
  have "list_all (\<lambda>d. company_id d = company) (map snd (upsert (dedup_key c) ?doc (fst acc)))"
    using assms by (auto simp: list_all_iff dest: upsert_set)
  then show ?thesis using Some assms by (simp add: index_one_def Let_def)
qed

lemma fold_index_one_owner:
  "list_all (\<lambda>d. company_id d = company) (map snd (fst acc)) \<Longrightarrow>
   list_all (\<lambda>d. company_id d = company) (map snd (fst (fold (index_one embed_text company) docs acc)))"
  by (induction docs arbitrary: acc) (simp_all add: index_one_owner)

lemma index_other: "A \<noteq> B \<Longrightarrow> fst (index embed_text B docs st) A = st A"
  by (simp add: index_def Let_def)

lemma store_ok_index: "store_ok st \<Longrightarrow> store_ok (fst (index embed_text company docs st))"
  unfolding store_ok_def
proof
  fix c
  assume a: "\<forall>company. list_all (\<lambda>d. company_id d = company) (documents_of st company)"
  show "list_all (\<lambda>d. company_id d = c) (documents_of (fst (index embed_text company docs st)) c)"
  proof (cases "c = company")
    case True
    have "list_all (\<lambda>d. company_id d = company)
            (map snd (case st company of None \<Rightarrow> [] | Some coll \<Rightarrow> coll))"
      using a [rule_format, of company] by (simp add: documents_of_def split: option.splits)
    then have "list_all (\<lambda>d. company_id d = company)
            (map snd (fst (fold (index_one embed_text company) docs
               (case st company of None \<Rightarrow> [] | Some coll \<Rightarrow> coll, \<lparr>written = 0, skipped = 0, failed = 0\<rparr>))))"
      by (intro fold_index_one_owner) simp
    then show ?thesis using True by (simp add: documents_of_def index_def Let_def)
  next
    case False
    then show ?thesis using a [rule_format, of c] by (simp add: documents_of_def index_def Let_def)
  qed
qed

lemma store_ok_reset: "store_ok st \<Longrightarrow> store_ok (reset company st)"
  by (simp add: store_ok_def reset_def documents_of_def)

lemma store_ok_empty: "store_ok empty_store"
  by (simp add: store_ok_def empty_store_def documents_of_def)

lemma store_ok_run: "store_ok st \<Longrightarrow> store_ok (run_ops embed_text ops st)"
proof (induction ops arbitrary: st)
  case Nil
  then show ?case by simp
next
  case (Cons op ops)
  have "store_ok (apply_op embed_text op st)"
    using Cons.prems by (cases op) (simp_all add: store_ok_index store_ok_reset)
  then show ?case using Cons.IH by simp
qed

lemma top_k_subset: "set (top_k similarity k q coll) \<subseteq> set (map snd coll)"
proof -
  have "set (take k (rev (sort_key (\<lambda>d. similarity q (embedding d)) (map snd coll))))
          \<subseteq> set (rev (sort_key (\<lambda>d. similarity q (embedding d)) (map snd coll)))"
    by (rule set_take_subset)
  then show ?thesis by (simp add: top_k_def)
qed

lemma retrieve_from_own:
  "retrieve embed_text similarity k st A question = Inr hits \<Longrightarrow> set hits \<subseteq> set (documents_of st A)"
  using top_k_subset [of similarity k _ _]
  by (auto simp: retrieve_def documents_of_def split: option.splits)

text \<open>
  C5. For two distinct companies A and B: indexing Documents for B leaves what a question
  for A retrieves exactly as it was; and in every store that research runs and resets
  can produce, each Document retrieved for A names A as its company and is none of the
  Documents in B's collection, whatever the texts are.
\<close>

theorem namespace_isolation:
  "A \<noteq> B \<longrightarrow>
     retrieve embed_text similarity k (fst (index embed_text B docs st)) A question =
       retrieve embed_text similarity k st A question
     \<and> (retrieve embed_text similarity k (run_ops embed_text ops empty_store) A question = Inr hits \<longrightarrow>
          list_all (\<lambda>d. company_id d = A \<and> d \<notin> set (documents_of (run_ops embed_text ops empty_store) B)) hits)"
proof
  assume ne: "A \<noteq> B"
  let ?st = "run_ops embed_text ops empty_store"
  have ok: "store_ok ?st" by (rule store_ok_run [OF store_ok_empty])
  have a: "retrieve embed_text similarity k (fst (index embed_text B docs st)) A question =
       retrieve embed_text similarity k st A question"
    using ne by (simp add: retrieve_def index_other)
  have b: "retrieve embed_text similarity k ?st A question = Inr hits \<longrightarrow>
          list_all (\<lambda>d. company_id d = A \<and> d \<notin> set (documents_of ?st B)) hits"
  proof
    assume "retrieve embed_text similarity k ?st A question = Inr hits"
    then have sub: "set hits \<subseteq> set (documents_of ?st A)" by (rule retrieve_from_own)
    have oa: "\<forall>d\<in>set (documents_of ?st A). company_id d = A"
      and ob: "\<forall>d\<in>set (documents_of ?st B). company_id d = B"
      using ok by (simp_all add: store_ok_def list_all_iff)
    show "list_all (\<lambda>d. company_id d = A \<and> d \<notin> set (documents_of ?st B)) hits"
      unfolding list_all_iff
    proof
      fix d
      assume "d \<in> set hits"
      then have "d \<in> set (documents_of ?st A)" using sub by blast
      then have c: "company_id d = A" using oa by blast
      then have "d \<notin> set (documents_of ?st B)" using ob ne by auto
      with c show "company_id d = A \<and> d \<notin> set (documents_of ?st B)" by (rule conjI)
    qed
  qed
  from a b show "retrieve embed_text similarity k (fst (index embed_text B docs st)) A question =
       retrieve embed_text similarity k st A question
     \<and> (retrieve embed_text similarity k ?st A question = Inr hits \<longrightarrow>
          list_all (\<lambda>d. company_id d = A \<and> d \<notin> set (documents_of ?st B)) hits)"
    by (rule conjI)
qed

lemma two_companies_store:
  "retrieve (\<lambda>t. Some (int (length t))) (\<lambda>q v. - \<bar>q - v\<bar>) 5
     (run_ops (\<lambda>t. Some (int (length t)))
        [Index ''Acme'' [\<lparr>dedup_key = ''k1'', source = Web, cleaned_text = ''widgets and gadgets''\<rparr>],
         Index ''Globex'' [\<lparr>dedup_key = ''k1'', source = News, cleaned_text = ''widgets and gadgets''\<rparr>]]
        empty_store)
     ''Acme'' ''widgets'' =
   Inr [\<lparr>doc_id = ''k1'', company_id = ''Acme'', doc_source = Web,
         doc_text = ''widgets and gadgets'', embedding = 19\<rparr>]"
  by (simp add: retrieve_def top_k_def index_def index_one_def empty_store_def Let_def)

theorem namespace_isolation_witness:
  "''Acme'' \<noteq> ''Globex''
   \<and> retrieve (\<lambda>t. Some (int (length t))) (\<lambda>q v. - \<bar>q - v\<bar>) 5
     (run_ops (\<lambda>t. Some (int (length t)))
        [Index ''Acme'' [\<lparr>dedup_key = ''k1'', source = Web, cleaned_text = ''widgets and gadgets''\<rparr>],
         Index ''Globex'' [\<lparr>dedup_key = ''k1'', source = News, cleaned_text = ''widgets and gadgets''\<rparr>]]
        empty_store)
     ''Acme'' ''widgets'' =
     Inr [\<lparr>doc_id = ''k1'', company_id = ''Acme'', doc_source = Web,
           doc_text = ''widgets and gadgets'', embedding = 19\<rparr>]
   \<and> list_all (\<lambda>d. company_id d = ''Acme'' \<and>
          d \<notin> set (documents_of
            (run_ops (\<lambda>t. Some (int (length t)))
              [Index ''Acme'' [\<lparr>dedup_key = ''k1'', source = Web, cleaned_text = ''widgets and gadgets''\<rparr>],
               Index ''Globex'' [\<lparr>dedup_key = ''k1'', source = News, cleaned_text = ''widgets and gadgets''\<rparr>]]
              empty_store) ''Globex''))
       [\<lparr>doc_id = ''k1'', company_id = ''Acme'', doc_source = Web,
         doc_text = ''widgets and gadgets'', embedding = 19\<rparr>]"
proof -
  have ne: "''Acme'' \<noteq> ''Globex''" by simp
  note iso = namespace_isolation [of "''Acme''" "''Globex''" "\<lambda>t. Some (int (length t))" "\<lambda>q v. - \<bar>q - v\<bar>" 5 _ _
      "''widgets''"
      "[Index ''Acme'' [\<lparr>dedup_key = ''k1'', source = Web, cleaned_text = ''widgets and gadgets''\<rparr>],
        Index ''Globex'' [\<lparr>dedup_key = ''k1'', source = News, cleaned_text = ''widgets and gadgets''\<rparr>]]"
      "[\<lparr>doc_id = ''k1'', company_id = ''Acme'', doc_source = Web,
         doc_text = ''widgets and gadgets'', embedding = 19\<rparr>]"]
  from mp [OF conjunct2 [OF mp [OF iso ne]] two_companies_store]
  show ?thesis using ne two_companies_store by blast
qed

subsection \<open>The reset call\<close>



end
